theory Spec2Isabelle
  imports Complex_Main "HOL-Library.Multiset"
begin

section \<open>The running state of the online softmax\<close>

text \<open>
  The kernels of \<^verbatim>\<open>decode.cuh\<close> keep one \<^verbatim>\<open>state_t<vec_size>\<close> per thread. The type
  is declared in \<^verbatim>\<open>state.cuh\<close>; the kernels use its fields \<^verbatim>\<open>o\<close>, \<^verbatim>\<open>m\<close>, \<^verbatim>\<open>d\<close>, its
  \<^verbatim>\<open>init()\<close> and its three \<^verbatim>\<open>merge\<close> overloads. The arithmetic of the state, which
  is not among the sources, is over the real numbers; the running maximum is either
  minus infinity or a real number.
\<close>

datatype score_max = NegInf | Fin real

fun max_sm :: "score_max \<Rightarrow> score_max \<Rightarrow> score_max" where
  "max_sm NegInf b = b"
| "max_sm a NegInf = a"
| "max_sm (Fin a) (Fin b) = Fin (max a b)"

text \<open>
  \<open>rescale m m'\<close> is the factor \<open>exp (m - m')\<close> by which a state whose maximum was \<open>m\<close>
  is rescaled when the maximum becomes \<open>m'\<close>. A state at minus infinity that meets a
  finite maximum is scaled by \<open>exp (- infinity) = 0\<close>; a maximum that does not change
  rescales nothing.
\<close>

fun rescale :: "score_max \<Rightarrow> score_max \<Rightarrow> real" where
  "rescale (Fin a) (Fin b) = exp (a - b)"
| "rescale NegInf (Fin b) = 0"
| "rescale NegInf NegInf = 1"
| "rescale (Fin a) NegInf = 0"

record state_t =
  so :: "real list"
  sm :: score_max
  sd :: real

text \<open>
  Modelled from the spec: \<^verbatim>\<open>state_t::init\<close> of \<^verbatim>\<open>state.cuh\<close>, which is not among the
  sources. The spec (section 3): \<^verbatim>\<open>o\<close> is created zero, \<^verbatim>\<open>m\<close> is initialised to minus
  infinity and \<^verbatim>\<open>d\<close> to 0.
\<close>

definition init :: "nat \<Rightarrow> state_t" where
  "init vec_size = \<lparr>so = replicate vec_size 0, sm = NegInf, sd = 0\<rparr>"

text \<open>
  Modelled from the spec: \<^verbatim>\<open>state_t::merge(float other_m, float other_d, const vec_t &other_o)\<close>
  of \<^verbatim>\<open>state.cuh\<close>, which is not among the sources. The spec (section 4.4): the merged
  state is \<open>m' = max(m1, m2)\<close>, \<open>d' = d1 * exp(m1 - m') + d2 * exp(m2 - m')\<close>,
  \<open>o' = o1 * exp(m1 - m') + o2 * exp(m2 - m')\<close>.
\<close>

definition merge_mdo :: "state_t \<Rightarrow> score_max \<Rightarrow> real \<Rightarrow> real list \<Rightarrow> state_t" where
  "merge_mdo s other_m other_d other_o =
     (let m_new = max_sm (sm s) other_m;
          r1 = rescale (sm s) m_new;
          r2 = rescale other_m m_new
      in \<lparr>so = map2 (\<lambda>a b. a * r1 + b * r2) (so s) other_o,
          sm = m_new,
          sd = sd s * r1 + other_d * r2\<rparr>)"

text \<open>\<^verbatim>\<open>state_t::merge(const state_t &other)\<close>: the merge of two states.\<close>

definition merge :: "state_t \<Rightarrow> state_t \<Rightarrow> state_t" where
  "merge s other = merge_mdo s (sm other) (sd other) (so other)"

text \<open>
  Modelled from the spec: \<^verbatim>\<open>state_t::merge(float x, const vec_t &v)\<close> of \<^verbatim>\<open>state.cuh\<close>,
  which is not among the sources. The spec (section 4.3): update \<open>m' = max(m, score)\<close>,
  rescale the existing \<open>o\<close> and \<open>d\<close> by \<open>exp(m - m')\<close>, add \<open>exp(score - m') * value\<close>
  to \<open>o\<close>, add \<open>exp(score - m')\<close> to \<open>d\<close>, set \<open>m = m'\<close>.
\<close>

definition merge_xv :: "state_t \<Rightarrow> real \<Rightarrow> real list \<Rightarrow> state_t" where
  "merge_xv s x v =
     (let m_new = max_sm (sm s) (Fin x);
          r1 = rescale (sm s) m_new;
          r2 = rescale (Fin x) m_new
      in \<lparr>so = map2 (\<lambda>a b. a * r1 + r2 * b) (so s) v,
          sm = m_new,
          sd = sd s * r1 + r2\<rparr>)"

section \<open>Vector registers and memory\<close>

text \<open>
  Memory (global or shared) is a function from element index to value. A
  \<^verbatim>\<open>vec_t<float, vec_size>\<close> is loaded from \<open>vec_size\<close> consecutive elements starting at
  a pointer; an element is the real number it stands for, and \<^verbatim>\<open>cast_load\<close> converts an
  element of \<^verbatim>\<open>DTypeIn\<close> to the \<^verbatim>\<open>float\<close> of the same value.
\<close>

type_synonym mem = "nat \<Rightarrow> real"

definition vec_load :: "nat \<Rightarrow> mem \<Rightarrow> nat \<Rightarrow> real list" where
  "vec_load vec_size mem p = map mem [p ..< p + vec_size]"

section \<open>The accumulation stage\<close>

text \<open>
  \<^verbatim>\<open>HND::update_partial_state\<close>: loads the value vector of the thread from the staged
  tile and merges it into the state when the guard holds.
\<close>

definition HND_update_partial_state ::
  "nat \<Rightarrow> nat \<Rightarrow> mem \<Rightarrow> real \<Rightarrow> nat list \<Rightarrow> nat \<Rightarrow> bool \<Rightarrow> state_t \<Rightarrow> nat \<Rightarrow> nat \<Rightarrow> state_t" where
  "HND_update_partial_state head_dim vec_size smem x kv_shared_offset compute_stage_idx
       pred_guard s tx ty =
     (let v_vec = vec_load vec_size smem
                    (kv_shared_offset ! compute_stage_idx + ty * head_dim + tx * vec_size)
      in if pred_guard then merge_xv s x v_vec else s)"

text \<open>\<^verbatim>\<open>NHD::update_partial_state\<close>: the same with the row \<open>tz * bdy + ty\<close> of the tile.\<close>

definition NHD_update_partial_state ::
  "nat \<Rightarrow> nat \<Rightarrow> nat \<Rightarrow> mem \<Rightarrow> real \<Rightarrow> nat list \<Rightarrow> nat \<Rightarrow> bool \<Rightarrow> state_t
     \<Rightarrow> nat \<Rightarrow> nat \<Rightarrow> nat \<Rightarrow> state_t" where
  "NHD_update_partial_state head_dim vec_size bdy smem x kv_shared_offset compute_stage_idx
       pred_guard s tx ty tz =
     (let v_vec = vec_load vec_size smem
                    (kv_shared_offset ! compute_stage_idx + (tz * bdy + ty) * head_dim
                       + tx * vec_size)
      in if pred_guard then merge_xv s x v_vec else s)"

section \<open>The score stage\<close>

text \<open>
  \<^verbatim>\<open>RotaryMode\<close> is declared in \<^verbatim>\<open>rope.cuh\<close>; the dispatch of \<^verbatim>\<open>decode.cuh\<close> names its
  enumerators \<^verbatim>\<open>kNone\<close> and \<^verbatim>\<open>kApplyRotary\<close> and has a default branch for every other
  value of the enum's underlying type.
\<close>

datatype RotaryMode = kNone | kApplyRotary | RotaryMode_other nat

text \<open>
  Modelled from the spec: \<^verbatim>\<open>apply_rotary<head_dim, vec_size>(x, rotary_emb, offset)\<close> of
  \<^verbatim>\<open>rope.cuh\<close>, which is not among the sources. The spec (section 2): given a raw
  vector, a precomputed per-lane frequency table and a sequence position, it returns the
  rotated vector. The kernels are embedded over an arbitrary such function of the raw
  vector (the \<open>head_dim\<close> values at the pointer \<open>x\<close>), the frequency table of the thread,
  the position and \<^verbatim>\<open>threadIdx.x\<close>, which returns the vector register of the thread.
\<close>

type_synonym rotary_fn = "real list \<Rightarrow> real list \<Rightarrow> nat \<Rightarrow> nat \<Rightarrow> real list"

text \<open>\<^verbatim>\<open>sm_scale = 1.f / std::sqrt(float(head_dim))\<close> of \<^verbatim>\<open>SingleDecodeWithKVCache\<close>.\<close>

definition sm_scale_of :: "nat \<Rightarrow> real" where
  "sm_scale_of head_dim = 1 / sqrt (real head_dim)"

text \<open>
  The registers \<open>x\<close>, \<open>q_vec\<close>, \<open>k_vec\<close>, \<open>rotary_emb\<close> and \<open>sm_scale\<close> are \<^verbatim>\<open>float\<close>
  (binary32). A finite float is the real number it stands for; what the device computes
  from floats is not the real result but a float near it, and which one depends on the
  rounding of every operation and on the contraction of products and sums into fused
  operations by the compiler. The float expressions of \<^verbatim>\<open>decode.cuh\<close> are therefore
  evaluated by a record of operations, about which nothing is assumed:
  \<open>fl_mac x q k s\<close> is the value of \<^verbatim>\<open>x + q * k * s\<close> (the body of \<^verbatim>\<open>x += ...\<close>),
  \<open>fl_add a b\<close> the value of \<^verbatim>\<open>a + b\<close>, \<open>fl_mul\<close>, \<open>fl_div\<close> and \<open>fl_powf\<close> those of
  \<^verbatim>\<open>a * b\<close>, \<^verbatim>\<open>a / b\<close> and \<^verbatim>\<open>powf(a, b)\<close>, and \<open>fl_of_nat n\<close> the conversion \<^verbatim>\<open>float(n)\<close>.
\<close>

record float_ops =
  fl_mac :: "real \<Rightarrow> real \<Rightarrow> real \<Rightarrow> real \<Rightarrow> real"
  fl_add :: "real \<Rightarrow> real \<Rightarrow> real"
  fl_mul :: "real \<Rightarrow> real \<Rightarrow> real"
  fl_div :: "real \<Rightarrow> real \<Rightarrow> real"
  fl_powf :: "real \<Rightarrow> real \<Rightarrow> real"
  fl_of_nat :: "nat \<Rightarrow> real"

text \<open>Arithmetic without rounding.\<close>

definition exact_ops :: float_ops where
  "exact_ops =
     \<lparr>fl_mac = (\<lambda>x q k s. x + q * k * s), fl_add = (\<lambda>a b. a + b), fl_mul = (\<lambda>a b. a * b),
      fl_div = (\<lambda>a b. a / b), fl_powf = (\<lambda>a b. a powr b), fl_of_nat = real\<rparr>"




text \<open>
  The loop \<^verbatim>\<open>x = 0.f; for (i = 0; i < vec_size; ++i) x += q_vec[i] * k_vec[i] * sm_scale\<close>.
\<close>

definition qk_local :: "float_ops \<Rightarrow> nat \<Rightarrow> real list \<Rightarrow> real list \<Rightarrow> real \<Rightarrow> real" where
  "qk_local fo vec_size q_vec k_vec sm_scale =
     foldl (\<lambda>x i. fl_mac fo x (q_vec ! i) (k_vec ! i) sm_scale) 0 [0 ..< vec_size]"

text \<open>
  A tile \<^verbatim>\<open>cg::tiled_partition<bdx>\<close> holds the \<open>bdx\<close> threads that differ in
  \<^verbatim>\<open>threadIdx.x\<close> only; the values of one register over the tile are a list indexed by
  the lane. \<^verbatim>\<open>g.shfl_down(x, offset)\<close> gives lane \<open>i\<close> the value of lane \<open>i + offset\<close>,
  and its own value when that lane is outside the tile; \<^verbatim>\<open>g.shfl(x, src)\<close> gives every
  lane the value of lane \<open>src\<close>.
\<close>

definition shfl_down :: "real list \<Rightarrow> nat \<Rightarrow> real list" where
  "shfl_down xs offset =
     map (\<lambda>lane. if lane + offset < length xs then xs ! (lane + offset) else xs ! lane)
       [0 ..< length xs]"

definition shfl :: "real list \<Rightarrow> nat \<Rightarrow> real list" where
  "shfl xs src = replicate (length xs) (xs ! src)"

text \<open>The loop \<^verbatim>\<open>for (offset = bdx / 2; offset > 0; offset /= 2) x += g.shfl_down(x, offset)\<close>.\<close>

function tile_reduce :: "float_ops \<Rightarrow> nat \<Rightarrow> real list \<Rightarrow> real list" where
  "tile_reduce fo offset xs =
     (if offset > 0
      then tile_reduce fo (offset div 2) (map2 (fl_add fo) xs (shfl_down xs offset))
      else xs)"
  by pat_completeness auto
termination
  by (relation "measure (\<lambda>(fo, offset, xs). offset)") auto

declare tile_reduce.simps [simp del]

text \<open>The key vector of thread \<open>(tx, ty)\<close> in \<^verbatim>\<open>HND::compute_qk\<close>.\<close>

definition HND_k_vec ::
  "RotaryMode \<Rightarrow> rotary_fn \<Rightarrow> nat \<Rightarrow> nat \<Rightarrow> mem \<Rightarrow> (nat \<Rightarrow> real list) \<Rightarrow> nat list \<Rightarrow> nat \<Rightarrow> nat
     \<Rightarrow> nat \<Rightarrow> nat \<Rightarrow> real list" where
  "HND_k_vec rotary_mode apply_rotary head_dim vec_size smem rotary_emb kv_shared_offset kv_idx
       compute_stage_idx tx ty =
     (if rotary_mode = kApplyRotary
      then apply_rotary
             (vec_load head_dim smem (kv_shared_offset ! compute_stage_idx + ty * head_dim))
             (rotary_emb tx) kv_idx tx
      else vec_load vec_size smem
             (kv_shared_offset ! compute_stage_idx + ty * head_dim + tx * vec_size))"

text \<open>
  \<^verbatim>\<open>HND::compute_qk\<close> for the tile of row \<open>ty\<close>: the result lists the register \<open>x\<close> of the
  lanes \<open>tx = 0, ..., bdx - 1\<close>. \<open>q_vec\<close> and \<open>rotary_emb\<close> give the registers of each lane.
\<close>

definition HND_compute_qk ::
  "float_ops \<Rightarrow> RotaryMode \<Rightarrow> rotary_fn \<Rightarrow> nat \<Rightarrow> nat \<Rightarrow> nat \<Rightarrow> mem \<Rightarrow> (nat \<Rightarrow> real list)
     \<Rightarrow> (nat \<Rightarrow> real list) \<Rightarrow> nat list \<Rightarrow> nat \<Rightarrow> nat \<Rightarrow> real \<Rightarrow> nat \<Rightarrow> real list" where
  "HND_compute_qk fo rotary_mode apply_rotary head_dim vec_size bdx smem q_vec rotary_emb
       kv_shared_offset kv_idx compute_stage_idx sm_scale ty =
     (let x0 = map (\<lambda>tx. qk_local fo vec_size (q_vec tx)
                     (HND_k_vec rotary_mode apply_rotary head_dim vec_size smem rotary_emb
                        kv_shared_offset kv_idx compute_stage_idx tx ty) sm_scale)
                 [0 ..< bdx];
          x1 = tile_reduce fo (bdx div 2) x0
      in shfl x1 0)"

text \<open>The key vector of thread \<open>(tx, ty, tz)\<close> in \<^verbatim>\<open>NHD::compute_qk\<close>.\<close>

definition NHD_k_vec ::
  "RotaryMode \<Rightarrow> rotary_fn \<Rightarrow> nat \<Rightarrow> nat \<Rightarrow> nat \<Rightarrow> mem \<Rightarrow> (nat \<Rightarrow> real list) \<Rightarrow> nat list \<Rightarrow> nat
     \<Rightarrow> nat \<Rightarrow> nat \<Rightarrow> nat \<Rightarrow> nat \<Rightarrow> real list" where
  "NHD_k_vec rotary_mode apply_rotary head_dim vec_size bdy smem rotary_emb kv_shared_offset
       kv_idx compute_stage_idx tx ty tz =
     (if rotary_mode = kApplyRotary
      then apply_rotary
             (vec_load head_dim smem
                (kv_shared_offset ! compute_stage_idx + (tz * bdy + ty) * head_dim))
             (rotary_emb tx) kv_idx tx
      else vec_load vec_size smem
             (kv_shared_offset ! compute_stage_idx + (tz * bdy + ty) * head_dim
                + tx * vec_size))"

text \<open>\<^verbatim>\<open>NHD::compute_qk\<close> for the tile of the threads \<open>(_, ty, tz)\<close>.\<close>

definition NHD_compute_qk ::
  "float_ops \<Rightarrow> RotaryMode \<Rightarrow> rotary_fn \<Rightarrow> nat \<Rightarrow> nat \<Rightarrow> nat \<Rightarrow> nat \<Rightarrow> mem \<Rightarrow> (nat \<Rightarrow> real list)
     \<Rightarrow> (nat \<Rightarrow> real list) \<Rightarrow> nat list \<Rightarrow> nat \<Rightarrow> nat \<Rightarrow> real \<Rightarrow> nat \<Rightarrow> nat \<Rightarrow> real list" where
  "NHD_compute_qk fo rotary_mode apply_rotary head_dim vec_size bdx bdy smem q_vec rotary_emb
       kv_shared_offset kv_idx compute_stage_idx sm_scale ty tz =
     (let x0 = map (\<lambda>tx. qk_local fo vec_size (q_vec tx)
                     (NHD_k_vec rotary_mode apply_rotary head_dim vec_size bdy smem rotary_emb
                        kv_shared_offset kv_idx compute_stage_idx tx ty tz) sm_scale)
                 [0 ..< bdx];
          x1 = tile_reduce fo (bdx div 2) x0
      in shfl x1 0)"

section \<open>The launch configuration chooser\<close>

text \<open>
  \<^verbatim>\<open>QKVLayout\<close> is declared in \<^verbatim>\<open>layout.cuh\<close>; \<^verbatim>\<open>SingleDecodeWithKVCache\<close> names its
  enumerators \<^verbatim>\<open>kNHD\<close> and \<^verbatim>\<open>kHND\<close> and has a last branch for every other value.
\<close>

datatype QKVLayout = kNHD | kHND | QKVLayout_other nat

type_synonym cudaError_t = nat

definition cudaSuccess :: cudaError_t where
  "cudaSuccess = 0"

text \<open>
  \<^verbatim>\<open>size_t\<close> is a 64-bit unsigned integer and the members of \<^verbatim>\<open>dim3\<close> are 32-bit
  unsigned integers: sums wrap around, the conversion of an \<^verbatim>\<open>int\<close> to \<^verbatim>\<open>size_t\<close> is
  modulo \<open>2 ^ 64\<close>, and \<open>sub1_u64 n\<close> is \<^verbatim>\<open>n - 1UL\<close>.
\<close>

definition u64 :: "nat \<Rightarrow> nat" where
  "u64 n = n mod 2 ^ 64"

definition u32 :: "nat \<Rightarrow> nat" where
  "u32 n = n mod 2 ^ 32"

definition size_t_of_int :: "int \<Rightarrow> nat" where
  "size_t_of_int i = nat (i mod 2 ^ 64)"

definition sub1_u64 :: "nat \<Rightarrow> nat" where
  "sub1_u64 n = u64 (n + (2 ^ 64 - 1))"

text \<open>An integer division by zero is undefined behaviour; the model returns it as a fault.\<close>

datatype fault = Division_By_Zero

text \<open>
  The values computed between the occupancy query and the launch: \<^verbatim>\<open>max_num_blks\<close>,
  \<^verbatim>\<open>max_num_kv_chunks\<close>, \<^verbatim>\<open>kv_chunk_size\<close> and the grid \<^verbatim>\<open>nblks\<close>.
\<close>

record plan =
  max_num_blks :: nat
  max_num_kv_chunks :: nat
  kv_chunk_size :: nat
  nblks_x :: nat
  nblks_y :: nat

text \<open>
  The NHD branch, from \<^verbatim>\<open>size_t max_num_blks = ...\<close> to \<^verbatim>\<open>dim3 nblks = ...\<close>. The
  divisions are evaluated in the order of the source; \<^verbatim>\<open>kv_chunk_size\<close> is at least 8,
  so the last division is always defined.
\<close>

definition NHD_plan :: "nat \<Rightarrow> int \<Rightarrow> int \<Rightarrow> nat \<Rightarrow> nat \<Rightarrow> fault + plan" where
  "NHD_plan bdy num_blocks_per_sm num_sm num_heads seq_len =
     (let mnb = u64 (size_t_of_int num_blocks_per_sm * size_t_of_int num_sm) in
      if bdy = 0 \<or> num_heads div bdy = 0 then Inl Division_By_Zero
      else let mkc = mnb div (num_heads div bdy) in
        if mkc = 0 then Inl Division_By_Zero
        else let cs = max (sub1_u64 (u64 (seq_len + mkc)) div mkc)
                        (min 64 (max 8 (seq_len div max 1 (u64 (64 * bdy) div num_heads))))
          in Inr \<lparr>max_num_blks = mnb, max_num_kv_chunks = mkc, kv_chunk_size = cs,
                  nblks_x = u32 (sub1_u64 (u64 (seq_len + cs)) div cs),
                  nblks_y = u32 (num_heads div bdy)\<rparr>)"

text \<open>The HND branch.\<close>

definition HND_plan :: "int \<Rightarrow> int \<Rightarrow> nat \<Rightarrow> nat \<Rightarrow> fault + plan" where
  "HND_plan num_blocks_per_sm num_sm num_heads seq_len =
     (let mnb = u64 (size_t_of_int num_blocks_per_sm * size_t_of_int num_sm) in
      if num_heads = 0 then Inl Division_By_Zero
      else let mkc = mnb div num_heads in
        if mkc = 0 then Inl Division_By_Zero
        else let cs = max (sub1_u64 (u64 (seq_len + mkc)) div mkc)
                        (min 128 (max 32 (seq_len div max 1 (128 div num_heads))))
          in Inr \<lparr>max_num_blks = mnb, max_num_kv_chunks = mkc, kv_chunk_size = cs,
                  nblks_x = u32 (sub1_u64 (u64 (seq_len + cs)) div cs),
                  nblks_y = u32 num_heads\<rparr>)"

text \<open>
  What \<^verbatim>\<open>cudaLaunchCooperativeKernel\<close> is called with: the kernel instantiation, the grid,
  the block and the arguments that depend on the plan.
\<close>

record launch_config =
  lc_layout :: QKVLayout
  lc_rotary_mode :: RotaryMode
  lc_head_dim :: nat
  lc_vec_size :: nat
  lc_nblks :: "nat \<times> nat"
  lc_nthrs :: "nat \<times> nat \<times> nat"
  lc_sm_scale :: real
  lc_seq_len :: nat
  lc_kv_chunk_size :: nat

text \<open>
  The CUDA runtime as the function sees it: the error code and the value of
  \<^verbatim>\<open>cudaDeviceGetAttribute\<close> (the multiprocessor count) and of
  \<^verbatim>\<open>cudaOccupancyMaxActiveBlocksPerMultiprocessor\<close>, the error code of the cooperative
  launch, and whether \<^verbatim>\<open>assert\<close> is compiled out (\<^verbatim>\<open>NDEBUG\<close>).
\<close>

record device_env =
  device_attribute :: "cudaError_t \<times> int"
  occupancy :: "cudaError_t \<times> int"
  launch_kernel :: "launch_config \<Rightarrow> cudaError_t"
  ndebug :: bool

text \<open>
  How a call ends: \<^verbatim>\<open>abort()\<close> after a message on \<^verbatim>\<open>std::cerr\<close>, undefined behaviour, a
  failed \<^verbatim>\<open>assert\<close>, or the return of an error code together with the configuration of
  the launch when \<^verbatim>\<open>cudaLaunchCooperativeKernel\<close> was called (\<open>None\<close> when it was not).
\<close>

datatype outcome =
    Aborted string
  | Undefined_Behaviour fault
  | Assert_Failed
  | Returned cudaError_t "launch_config option"

definition NHD_config :: "RotaryMode \<Rightarrow> nat \<Rightarrow> nat \<Rightarrow> nat \<Rightarrow> nat \<Rightarrow> nat \<Rightarrow> plan \<Rightarrow> launch_config" where
  "NHD_config rotary_mode HEAD_DIM vec_size bdx bdy seq_len p =
     \<lparr>lc_layout = kNHD, lc_rotary_mode = rotary_mode, lc_head_dim = HEAD_DIM,
      lc_vec_size = vec_size, lc_nblks = (nblks_x p, nblks_y p), lc_nthrs = (bdx, bdy, 4),
      lc_sm_scale = sm_scale_of HEAD_DIM, lc_seq_len = seq_len,
      lc_kv_chunk_size = kv_chunk_size p\<rparr>"

text \<open>
  The body of the NHD branch for one instantiation; each \<^verbatim>\<open>CUDA_CALL\<close> returns the error
  code of a failing call at once.
\<close>

definition NHD_launch :: "device_env \<Rightarrow> nat \<Rightarrow> RotaryMode \<Rightarrow> nat \<Rightarrow> nat \<Rightarrow> nat \<Rightarrow> outcome" where
  "NHD_launch env sz ROTARY_MODE HEAD_DIM num_heads seq_len =
     (let vec_size = max (16 div sz) (HEAD_DIM div 32);
          bdx = HEAD_DIM div vec_size;
          bdy = 32 div bdx
      in if fst (device_attribute env) \<noteq> cudaSuccess
         then Returned (fst (device_attribute env)) None
         else if fst (occupancy env) \<noteq> cudaSuccess
         then Returned (fst (occupancy env)) None
         else (case NHD_plan bdy (snd (occupancy env)) (snd (device_attribute env))
                      num_heads seq_len of
                 Inl f \<Rightarrow> Undefined_Behaviour f
               | Inr p \<Rightarrow>
                   if \<not> ndebug env \<and> \<not> (nblks_x p > 0 \<and> nblks_y p > 0) then Assert_Failed
                   else let cfg = NHD_config ROTARY_MODE HEAD_DIM vec_size bdx bdy seq_len p;
                            e = launch_kernel env cfg
                        in if e \<noteq> cudaSuccess then Returned e (Some cfg)
                           else Returned cudaSuccess (Some cfg)))"

definition HND_config :: "RotaryMode \<Rightarrow> nat \<Rightarrow> nat \<Rightarrow> nat \<Rightarrow> nat \<Rightarrow> nat \<Rightarrow> plan \<Rightarrow> launch_config" where
  "HND_config rotary_mode HEAD_DIM vec_size bdx bdy seq_len p =
     \<lparr>lc_layout = kHND, lc_rotary_mode = rotary_mode, lc_head_dim = HEAD_DIM,
      lc_vec_size = vec_size, lc_nblks = (nblks_x p, nblks_y p), lc_nthrs = (bdx, bdy, 1),
      lc_sm_scale = sm_scale_of HEAD_DIM, lc_seq_len = seq_len,
      lc_kv_chunk_size = kv_chunk_size p\<rparr>"

definition HND_launch :: "device_env \<Rightarrow> nat \<Rightarrow> RotaryMode \<Rightarrow> nat \<Rightarrow> nat \<Rightarrow> nat \<Rightarrow> outcome" where
  "HND_launch env sz ROTARY_MODE HEAD_DIM num_heads seq_len =
     (let vec_size = max (16 div sz) (HEAD_DIM div 32);
          bdx = HEAD_DIM div vec_size;
          bdy = 128 div bdx
      in if fst (device_attribute env) \<noteq> cudaSuccess
         then Returned (fst (device_attribute env)) None
         else if fst (occupancy env) \<noteq> cudaSuccess
         then Returned (fst (occupancy env)) None
         else (case HND_plan (snd (occupancy env)) (snd (device_attribute env))
                      num_heads seq_len of
                 Inl f \<Rightarrow> Undefined_Behaviour f
               | Inr p \<Rightarrow>
                   if \<not> ndebug env \<and> \<not> (nblks_x p > 0 \<and> nblks_y p > 0) then Assert_Failed
                   else let cfg = HND_config ROTARY_MODE HEAD_DIM vec_size bdx bdy seq_len p;
                            e = launch_kernel env cfg
                        in if e \<noteq> cudaSuccess then Returned e (Some cfg)
                           else Returned cudaSuccess (Some cfg)))"

text \<open>The dispatch macros and the function.\<close>

fun SWITCH_ROTARY_MODE :: "RotaryMode \<Rightarrow> (RotaryMode \<Rightarrow> outcome) \<Rightarrow> outcome" where
  "SWITCH_ROTARY_MODE kNone body = body kNone"
| "SWITCH_ROTARY_MODE kApplyRotary body = body kApplyRotary"
| "SWITCH_ROTARY_MODE (RotaryMode_other n) body = Aborted ''Unsupported rotary_mode''"

definition SWITCH_HEAD_DIM :: "nat \<Rightarrow> (nat \<Rightarrow> outcome) \<Rightarrow> outcome" where
  "SWITCH_HEAD_DIM head_dim body =
     (if head_dim = 64 then body 64
      else if head_dim = 128 then body 128
      else if head_dim = 256 then body 256
      else Aborted ''Unsupported head_dim'')"

definition SingleDecodeWithKVCache ::
  "device_env \<Rightarrow> nat \<Rightarrow> nat \<Rightarrow> nat \<Rightarrow> nat \<Rightarrow> QKVLayout \<Rightarrow> RotaryMode \<Rightarrow> outcome" where
  "SingleDecodeWithKVCache env sz num_heads seq_len head_dim qkv_layout rotary_mode =
     (if qkv_layout = kNHD
      then SWITCH_HEAD_DIM head_dim (\<lambda>HEAD_DIM.
             SWITCH_ROTARY_MODE rotary_mode (\<lambda>ROTARY_MODE.
               NHD_launch env sz ROTARY_MODE HEAD_DIM num_heads seq_len))
      else if qkv_layout = kHND
      then SWITCH_HEAD_DIM head_dim (\<lambda>HEAD_DIM.
             SWITCH_ROTARY_MODE rotary_mode (\<lambda>ROTARY_MODE.
               HND_launch env sz ROTARY_MODE HEAD_DIM num_heads seq_len))
      else Aborted ''Unsupported qkv_layout'')"

fun is_aborted :: "outcome \<Rightarrow> bool" where
  "is_aborted (Aborted msg) = True"
| "is_aborted other = False"

section \<open>Algebra of the merge\<close>

lemma max_sm_commute: "max_sm a b = max_sm b a"
  by (cases a; cases b) (simp_all add: max.commute)

lemma max_sm_assoc: "max_sm (max_sm a b) c = max_sm a (max_sm b c)"
  by (cases a; cases b; cases c) (simp_all add: max.assoc)

lemma max_sm_NegInf_right [simp]: "max_sm a NegInf = a"
  by (cases a) simp_all

lemma rescale_self [simp]: "rescale a a = 1"
  by (cases a) simp_all

lemma rescale_trans:
  "rescale a (max_sm a b) * rescale (max_sm a b) (max_sm (max_sm a b) c)
     = rescale a (max_sm (max_sm a b) c)"
  by (cases a; cases b; cases c) (simp_all add: exp_add [symmetric])

lemma rescale_trans':
  "rescale b (max_sm a b) * rescale (max_sm a b) (max_sm (max_sm a b) c)
     = rescale b (max_sm (max_sm a b) c)"
  by (cases a; cases b; cases c) (simp_all add: exp_add [symmetric])

lemma merge_commute: "merge A B = merge B A"
proof -
  have "map2 (\<lambda>a b. a * r1 + b * r2) xs ys = map2 (\<lambda>a b. a * r2 + b * r1) ys xs"
    for r1 r2 :: real and xs ys
    by (induction xs ys rule: list_induct2') simp_all
  then show ?thesis
    by (simp add: merge_def merge_mdo_def Let_def max_sm_commute [of "sm A"])
qed

lemma map2_assoc_lin:
  fixes r1 r2 s1 s2 t1 t2 u1 u2 :: real
  assumes "r1 * s1 = t1" "r2 * s1 = u1 * t2" "s2 = u2 * t2"
  shows "map2 (\<lambda>x y. x * s1 + y * s2) (map2 (\<lambda>a b. a * r1 + b * r2) xs ys) zs
       = map2 (\<lambda>a y. a * t1 + y * t2) xs (map2 (\<lambda>b c. b * u1 + c * u2) ys zs)"
proof (induction xs arbitrary: ys zs)
  case Nil
  then show ?case by simp
next
  case (Cons x xs)
  show ?case
  proof (cases ys)
    case Nil
    then show ?thesis by simp
  next
    case ys: (Cons y ys')
    show ?thesis
    proof (cases zs)
      case Nil
      then show ?thesis by simp
    next
      case zs: (Cons z zs')
      have "(x * r1 + y * r2) * s1 + z * s2 = x * t1 + (y * u1 + z * u2) * t2"
        using assms by (simp add: algebra_simps) (metis mult.assoc)
      then show ?thesis
        using Cons.IH [of ys' zs'] by (simp add: ys zs)
    qed
  qed
qed

lemma rescale_trans_r:
  "rescale b (max_sm b c) * rescale (max_sm b c) (max_sm a (max_sm b c))
     = rescale b (max_sm a (max_sm b c))"
  by (cases a; cases b; cases c) (simp_all add: exp_add [symmetric])

lemma rescale_trans_r':
  "rescale c (max_sm b c) * rescale (max_sm b c) (max_sm a (max_sm b c))
     = rescale c (max_sm a (max_sm b c))"
  by (cases a; cases b; cases c) (simp_all add: exp_add [symmetric])

lemma merge_assoc: "merge (merge A B) C = merge A (merge B C)"
proof -
  let ?a = "sm A" and ?b = "sm B" and ?c = "sm C"
  let ?M = "max_sm ?a (max_sm ?b ?c)"
  have M: "max_sm (max_sm ?a ?b) ?c = ?M" by (rule max_sm_assoc)
  have e1: "rescale ?a (max_sm ?a ?b) * rescale (max_sm ?a ?b) ?M = rescale ?a ?M"
    using rescale_trans [of ?a ?b ?c] by (simp add: M)
  have e2: "rescale ?b (max_sm ?a ?b) * rescale (max_sm ?a ?b) ?M
              = rescale ?b (max_sm ?b ?c) * rescale (max_sm ?b ?c) ?M"
    using rescale_trans' [of ?b ?a ?c] rescale_trans_r [of ?b ?c ?a] by (simp add: M)
  have e3: "rescale ?c ?M = rescale ?c (max_sm ?b ?c) * rescale (max_sm ?b ?c) ?M"
    using rescale_trans_r' [of ?c ?b ?a] by simp
  have o_eq: "so (merge (merge A B) C) = so (merge A (merge B C))"
    by (simp add: merge_def merge_mdo_def Let_def M map2_assoc_lin [OF e1 e2 e3])
  have d_eq: "sd (merge (merge A B) C) = sd (merge A (merge B C))"
    using e1 e2 e3 by (simp add: merge_def merge_mdo_def Let_def M algebra_simps)
  have m_eq: "sm (merge (merge A B) C) = sm (merge A (merge B C))"
    by (simp add: merge_def merge_mdo_def Let_def M)
  show ?thesis using o_eq d_eq m_eq by (simp add: state_t.equality)
qed

section \<open>The tile reduction of the score stage\<close>


lemma length_shfl_down [simp]: "length (shfl_down xs offset) = length xs"
  by (simp add: shfl_down_def)

lemma length_tile_reduce [simp]: "length (tile_reduce fo offset xs) = length xs"
proof (induction fo offset xs rule: tile_reduce.induct)
  case (1 fo offset xs)
  show ?case
  proof (cases "offset > 0")
    case True
    then show ?thesis using "1" by (subst tile_reduce.simps) simp
  next
    case False
    then show ?thesis by (subst tile_reduce.simps) simp
  qed
qed














text \<open>
  Inputs of the examples: a stand-in for \<^verbatim>\<open>apply_rotary\<close> that moves the two features of a
  lane by the position, and a staged row on which binary32 rounds.
\<close>

definition example_rotary :: rotary_fn where
  "example_rotary row emb pos tx =
     [row ! (tx * 2) + real pos * emb ! 0, row ! (tx * 2 + 1) - real pos * emb ! 1]"







section \<open>The launch configuration: bounds and errors\<close>

lemma sub1_u64_u64: "0 < n \<Longrightarrow> sub1_u64 (u64 n) = (n - 1) mod 2 ^ 64"
proof -
  assume "0 < n"
  then have e: "n + (2 ^ 64 - 1) = (n - 1) + 1 * 2 ^ 64" by simp
  have "sub1_u64 (u64 n) = (n + (2 ^ 64 - 1)) mod 2 ^ 64"
    unfolding sub1_u64_def u64_def by (rule mod_add_left_eq)
  also have "\<dots> = (n - 1) mod 2 ^ 64"
    unfolding e by (rule mod_mult_self1)
  finally show ?thesis .
qed

lemma sub1_u64_u64_le: "0 < n \<Longrightarrow> sub1_u64 (u64 n) \<le> n - 1"
  by (simp add: sub1_u64_u64)

lemma sub1_u64_u64_exact: "0 < n \<Longrightarrow> n \<le> 2 ^ 64 \<Longrightarrow> sub1_u64 (u64 n) = n - 1"
  by (simp add: sub1_u64_u64)

lemma u32_le: "u32 n \<le> n" by (simp add: u32_def)

lemma ceil_chunks_le:
  fixes s cs mk :: nat
  assumes "0 < mk" and "(s + mk - 1) div mk \<le> cs" and "0 < cs"
  shows "(s + cs - 1) div cs \<le> mk"
proof -
  have "s + mk - 1 < ((s + mk - 1) div mk) * mk + mk"
    using assms(1) div_mult_mod_eq [of "s + mk - 1" mk] mod_less_divisor [of mk "s + mk - 1"]
    by linarith
  then have "s \<le> ((s + mk - 1) div mk) * mk" by simp
  also have "\<dots> \<le> cs * mk" using assms(2) by simp
  finally have "s + cs - 1 < cs * (mk + 1)" using assms(3) by simp
  then have "(s + cs - 1) div cs < mk + 1"
    using assms(3) by (simp add: less_mult_imp_div_less mult.commute)
  then show ?thesis by simp
qed

lemma grid_x_le:
  assumes "0 < mk" and "s + mk \<le> 2 ^ 64"
    and "sub1_u64 (u64 (s + mk)) div mk \<le> cs" and "0 < cs"
  shows "u32 (sub1_u64 (u64 (s + cs)) div cs) \<le> mk"
proof -
  have "sub1_u64 (u64 (s + mk)) = s + mk - 1"
    using assms(1,2) by (simp add: sub1_u64_u64_exact)
  then have c: "(s + cs - 1) div cs \<le> mk"
    using ceil_chunks_le [OF assms(1) _ assms(4), of s] assms(3) by simp
  have "u32 (sub1_u64 (u64 (s + cs)) div cs) \<le> sub1_u64 (u64 (s + cs)) div cs"
    by (rule u32_le)
  also have "\<dots> \<le> (s + cs - 1) div cs"
    using sub1_u64_u64_le [of "s + cs"] assms(4) by (simp add: div_le_mono)
  finally show ?thesis using c by simp
qed

lemma plan_bounds_core:
  fixes mk s cs g mnb B c :: nat
  assumes mk: "mk = mnb div g" "mk \<noteq> 0"
    and cs: "cs = max (sub1_u64 (u64 (s + mk)) div mk) B"
    and B: "B = min c (max f r)" "0 < f" "f \<le> c"
    and le: "s + mk \<le> 2 ^ 64"
  shows "u32 (sub1_u64 (u64 (s + cs)) div cs) \<le> mk"
    and "u32 (sub1_u64 (u64 (s + cs)) div cs) * u32 g \<le> mnb"
    and "f \<le> cs"
    and "cs \<le> max c ((s + mk - 1) div mk)"
proof -
  have fB: "f \<le> B" "B \<le> c" using B by simp_all
  show fcs: "f \<le> cs" using fB cs by simp
  then have cs0: "0 < cs" using B(2) by linarith
  have A: "sub1_u64 (u64 (s + mk)) div mk \<le> cs" using cs by simp
  show x: "u32 (sub1_u64 (u64 (s + cs)) div cs) \<le> mk"
    using mk(2) le A cs0 by (intro grid_x_le) simp_all
  have "u32 (sub1_u64 (u64 (s + cs)) div cs) * u32 g \<le> mk * g"
    using x u32_le [of g] by (rule mult_le_mono)
  also have "\<dots> \<le> mnb" using mk(1) by simp
  finally show "u32 (sub1_u64 (u64 (s + cs)) div cs) * u32 g \<le> mnb" .
  have "sub1_u64 (u64 (s + mk)) = s + mk - 1"
    using mk(2) le by (simp add: sub1_u64_u64_exact)
  then show "cs \<le> max c ((s + mk - 1) div mk)"
    using cs fB by simp
qed

lemma NHD_plan_Inr:
  assumes "NHD_plan bdy nbps nsm num_heads seq_len = Inr p"
  shows "bdy \<noteq> 0" and "num_heads div bdy \<noteq> 0"
    and "max_num_blks p = u64 (size_t_of_int nbps * size_t_of_int nsm)"
    and "max_num_kv_chunks p = max_num_blks p div (num_heads div bdy)"
    and "max_num_kv_chunks p \<noteq> 0"
    and "kv_chunk_size p
           = max (sub1_u64 (u64 (seq_len + max_num_kv_chunks p)) div max_num_kv_chunks p)
               (min 64 (max 8 (seq_len div max 1 (u64 (64 * bdy) div num_heads))))"
    and "nblks_x p = u32 (sub1_u64 (u64 (seq_len + kv_chunk_size p)) div kv_chunk_size p)"
    and "nblks_y p = u32 (num_heads div bdy)"
proof -
  define mnb where "mnb = u64 (size_t_of_int nbps * size_t_of_int nsm)"
  define mkc where "mkc = mnb div (num_heads div bdy)"
  define cs where "cs = max (sub1_u64 (u64 (seq_len + mkc)) div mkc)
                        (min 64 (max 8 (seq_len div max 1 (u64 (64 * bdy) div num_heads))))"
  have unf: "NHD_plan bdy nbps nsm num_heads seq_len =
     (if bdy = 0 \<or> num_heads div bdy = 0 then Inl Division_By_Zero
      else if mkc = 0 then Inl Division_By_Zero
      else Inr \<lparr>max_num_blks = mnb, max_num_kv_chunks = mkc, kv_chunk_size = cs,
                  nblks_x = u32 (sub1_u64 (u64 (seq_len + cs)) div cs),
                  nblks_y = u32 (num_heads div bdy)\<rparr>)"
    unfolding NHD_plan_def Let_def mnb_def mkc_def cs_def by (rule refl)
  have c1: "\<not> (bdy = 0 \<or> num_heads div bdy = 0)"
    using assms unfolding unf by (cases "bdy = 0 \<or> num_heads div bdy = 0") simp_all
  have c2: "mkc \<noteq> 0"
    using assms c1 unfolding unf by (cases "mkc = 0") simp_all
  have p: "p = \<lparr>max_num_blks = mnb, max_num_kv_chunks = mkc, kv_chunk_size = cs,
                  nblks_x = u32 (sub1_u64 (u64 (seq_len + cs)) div cs),
                  nblks_y = u32 (num_heads div bdy)\<rparr>"
    using assms c1 c2 unfolding unf by simp
  show "bdy \<noteq> 0" "num_heads div bdy \<noteq> 0" using c1 by simp_all
  show "max_num_blks p = u64 (size_t_of_int nbps * size_t_of_int nsm)"
    unfolding p mnb_def by simp
  show "max_num_kv_chunks p = max_num_blks p div (num_heads div bdy)"
    unfolding p mkc_def by simp
  show "max_num_kv_chunks p \<noteq> 0" using c2 unfolding p by simp
  show "kv_chunk_size p
           = max (sub1_u64 (u64 (seq_len + max_num_kv_chunks p)) div max_num_kv_chunks p)
               (min 64 (max 8 (seq_len div max 1 (u64 (64 * bdy) div num_heads))))"
    unfolding p cs_def by simp
  show "nblks_x p = u32 (sub1_u64 (u64 (seq_len + kv_chunk_size p)) div kv_chunk_size p)"
    unfolding p by simp
  show "nblks_y p = u32 (num_heads div bdy)"
    unfolding p by simp
qed

lemma NHD_plan_bounds:
  assumes "NHD_plan bdy nbps nsm num_heads seq_len = Inr p"
    and "seq_len + max_num_kv_chunks p \<le> 2 ^ 64"
  shows "nblks_x p \<le> max_num_kv_chunks p"
    and "nblks_x p * nblks_y p \<le> max_num_blks p"
    and "8 \<le> kv_chunk_size p"
    and "kv_chunk_size p \<le> max 64 ((seq_len + max_num_kv_chunks p - 1) div max_num_kv_chunks p)"
proof -
  note f = NHD_plan_Inr [OF assms(1)]
  note c = plan_bounds_core [OF f(4) f(5) f(6) refl _ _ assms(2)]
  show "nblks_x p \<le> max_num_kv_chunks p" using c(1) f(7) by simp
  show "nblks_x p * nblks_y p \<le> max_num_blks p" using c(2) f(7) f(8) by simp
  show "8 \<le> kv_chunk_size p" using c(3) by simp
  show "kv_chunk_size p \<le> max 64 ((seq_len + max_num_kv_chunks p - 1) div max_num_kv_chunks p)"
    using c(4) by simp
qed

lemma HND_plan_Inr:
  assumes "HND_plan nbps nsm num_heads seq_len = Inr p"
  shows "num_heads \<noteq> 0"
    and "max_num_blks p = u64 (size_t_of_int nbps * size_t_of_int nsm)"
    and "max_num_kv_chunks p = max_num_blks p div num_heads"
    and "max_num_kv_chunks p \<noteq> 0"
    and "kv_chunk_size p
           = max (sub1_u64 (u64 (seq_len + max_num_kv_chunks p)) div max_num_kv_chunks p)
               (min 128 (max 32 (seq_len div max 1 (128 div num_heads))))"
    and "nblks_x p = u32 (sub1_u64 (u64 (seq_len + kv_chunk_size p)) div kv_chunk_size p)"
    and "nblks_y p = u32 num_heads"
proof -
  define mnb where "mnb = u64 (size_t_of_int nbps * size_t_of_int nsm)"
  define mkc where "mkc = mnb div num_heads"
  define cs where "cs = max (sub1_u64 (u64 (seq_len + mkc)) div mkc)
                        (min 128 (max 32 (seq_len div max 1 (128 div num_heads))))"
  have unf: "HND_plan nbps nsm num_heads seq_len =
     (if num_heads = 0 then Inl Division_By_Zero
      else if mkc = 0 then Inl Division_By_Zero
      else Inr \<lparr>max_num_blks = mnb, max_num_kv_chunks = mkc, kv_chunk_size = cs,
                  nblks_x = u32 (sub1_u64 (u64 (seq_len + cs)) div cs),
                  nblks_y = u32 num_heads\<rparr>)"
    unfolding HND_plan_def Let_def mnb_def mkc_def cs_def by (rule refl)
  have c1: "num_heads \<noteq> 0"
    using assms unfolding unf by (cases "num_heads = 0") simp_all
  have c2: "mkc \<noteq> 0"
    using assms c1 unfolding unf by (cases "mkc = 0") simp_all
  have p: "p = \<lparr>max_num_blks = mnb, max_num_kv_chunks = mkc, kv_chunk_size = cs,
                  nblks_x = u32 (sub1_u64 (u64 (seq_len + cs)) div cs),
                  nblks_y = u32 num_heads\<rparr>"
    using assms c1 c2 unfolding unf by simp
  show "num_heads \<noteq> 0" using c1 .
  show "max_num_blks p = u64 (size_t_of_int nbps * size_t_of_int nsm)"
    unfolding p mnb_def by simp
  show "max_num_kv_chunks p = max_num_blks p div num_heads"
    unfolding p mkc_def by simp
  show "max_num_kv_chunks p \<noteq> 0" using c2 unfolding p by simp
  show "kv_chunk_size p
           = max (sub1_u64 (u64 (seq_len + max_num_kv_chunks p)) div max_num_kv_chunks p)
               (min 128 (max 32 (seq_len div max 1 (128 div num_heads))))"
    unfolding p cs_def by simp
  show "nblks_x p = u32 (sub1_u64 (u64 (seq_len + kv_chunk_size p)) div kv_chunk_size p)"
    unfolding p by simp
  show "nblks_y p = u32 num_heads"
    unfolding p by simp
qed

lemma HND_plan_bounds:
  assumes "HND_plan nbps nsm num_heads seq_len = Inr p"
    and "seq_len + max_num_kv_chunks p \<le> 2 ^ 64"
  shows "nblks_x p \<le> max_num_kv_chunks p"
    and "nblks_x p * nblks_y p \<le> max_num_blks p"
    and "32 \<le> kv_chunk_size p"
    and "kv_chunk_size p \<le> max 128 ((seq_len + max_num_kv_chunks p - 1) div max_num_kv_chunks p)"
proof -
  note f = HND_plan_Inr [OF assms(1)]
  note c = plan_bounds_core [OF f(3) f(4) f(5) refl _ _ assms(2)]
  show "nblks_x p \<le> max_num_kv_chunks p" using c(1) f(6) by simp
  show "nblks_x p * nblks_y p \<le> max_num_blks p" using c(2) f(6) f(7) by simp
  show "32 \<le> kv_chunk_size p" using c(3) by simp
  show "kv_chunk_size p \<le> max 128 ((seq_len + max_num_kv_chunks p - 1) div max_num_kv_chunks p)"
    using c(4) by simp
qed

lemma NHD_launch_plan:
  assumes "fst (device_attribute env) = cudaSuccess" and "fst (occupancy env) = cudaSuccess"
    and "NHD_plan (32 div (HEAD_DIM div max (16 div sz) (HEAD_DIM div 32)))
           (snd (occupancy env)) (snd (device_attribute env)) num_heads seq_len = Inr p"
    and "ndebug env \<or> (0 < nblks_x p \<and> 0 < nblks_y p)"
  shows "NHD_launch env sz rm HEAD_DIM num_heads seq_len
       = Returned (launch_kernel env
            (NHD_config rm HEAD_DIM (max (16 div sz) (HEAD_DIM div 32))
               (HEAD_DIM div max (16 div sz) (HEAD_DIM div 32))
               (32 div (HEAD_DIM div max (16 div sz) (HEAD_DIM div 32))) seq_len p))
           (Some (NHD_config rm HEAD_DIM (max (16 div sz) (HEAD_DIM div 32))
               (HEAD_DIM div max (16 div sz) (HEAD_DIM div 32))
               (32 div (HEAD_DIM div max (16 div sz) (HEAD_DIM div 32))) seq_len p))"
  using assms unfolding NHD_launch_def Let_def by auto

lemma HND_launch_plan:
  assumes "fst (device_attribute env) = cudaSuccess" and "fst (occupancy env) = cudaSuccess"
    and "HND_plan (snd (occupancy env)) (snd (device_attribute env)) num_heads seq_len = Inr p"
    and "ndebug env \<or> (0 < nblks_x p \<and> 0 < nblks_y p)"
  shows "HND_launch env sz rm HEAD_DIM num_heads seq_len
       = Returned (launch_kernel env
            (HND_config rm HEAD_DIM (max (16 div sz) (HEAD_DIM div 32))
               (HEAD_DIM div max (16 div sz) (HEAD_DIM div 32))
               (128 div (HEAD_DIM div max (16 div sz) (HEAD_DIM div 32))) seq_len p))
           (Some (HND_config rm HEAD_DIM (max (16 div sz) (HEAD_DIM div 32))
               (HEAD_DIM div max (16 div sz) (HEAD_DIM div 32))
               (128 div (HEAD_DIM div max (16 div sz) (HEAD_DIM div 32))) seq_len p))"
  using assms unfolding HND_launch_def Let_def by auto

lemma NHD_plan_ok:
  assumes "1 \<le> num_heads div bdy"
    and "num_heads div bdy \<le> u64 (size_t_of_int nbps * size_t_of_int nsm)"
  shows "\<exists>p. NHD_plan bdy nbps nsm num_heads seq_len = Inr p \<and> 0 < max_num_kv_chunks p"
proof -
  have b: "bdy \<noteq> 0" using assms(1) by (cases "bdy = 0") simp_all
  define g where "g = num_heads div bdy"
  have "0 < u64 (size_t_of_int nbps * size_t_of_int nsm) div g"
    using assms unfolding g_def [symmetric] by (simp add: div_greater_zero_iff)
  then have "0 < u64 (size_t_of_int nbps * size_t_of_int nsm) div (num_heads div bdy)"
    unfolding g_def .
  then show ?thesis
    using assms(1) b unfolding NHD_plan_def Let_def by simp
qed

lemma HND_plan_ok:
  assumes "1 \<le> num_heads"
    and "num_heads \<le> u64 (size_t_of_int nbps * size_t_of_int nsm)"
  shows "\<exists>p. HND_plan nbps nsm num_heads seq_len = Inr p \<and> 0 < max_num_kv_chunks p"
proof -
  have "0 < u64 (size_t_of_int nbps * size_t_of_int nsm) div num_heads"
    using assms by (simp add: div_greater_zero_iff)
  then show ?thesis
    using assms(1) unfolding HND_plan_def Let_def by simp
qed

lemma size_t_of_int_numerals:
  "size_t_of_int 1 = 1" "size_t_of_int 2 = 2" "size_t_of_int 8 = 8" "size_t_of_int 108 = 108"
  "size_t_of_int 100 = 100"
  by (simp_all add: size_t_of_int_def)

lemma NHD_plan_example:
  "NHD_plan 4 1 8 32 1000
   = Inr \<lparr>max_num_blks = 8, max_num_kv_chunks = 1, kv_chunk_size = 1000, nblks_x = 1,
          nblks_y = 8\<rparr>"
  by (simp add: NHD_plan_def size_t_of_int_numerals u64_def u32_def sub1_u64_def Let_def)

lemma HND_plan_example:
  "HND_plan 1 8 4 1000
   = Inr \<lparr>max_num_blks = 8, max_num_kv_chunks = 2, kv_chunk_size = 500, nblks_x = 2,
          nblks_y = 4\<rparr>"
  by (simp add: HND_plan_def size_t_of_int_numerals u64_def u32_def sub1_u64_def Let_def)

text \<open>
  Claim C7, as the code has it. For every number of heads, sequence length and occupancy
  limit for which the chooser computes a chunk size (its divisions are defined) and
  \<open>seq_len + max_num_kv_chunks\<close> does not wrap around 64 bits: (a) the number of chunks
  is at most \<open>max_num_kv_chunks\<close>, so that the grid needs at most \<open>max_num_blks\<close>
  groups, the number the device hosts at once; (b) the chunk size is at least the floor
  (8 for NHD, 32 for HND) and at most the larger of the ceiling (64 for NHD, 128 for
  HND) and \<open>(seq_len + max_num_kv_chunks - 1) div max_num_kv_chunks\<close>: the occupancy
  bound has precedence over the ceiling.
\<close>

theorem chunk_plan_bounds:
  "(NHD_plan bdy nbps nsm num_heads seq_len = Inr p
      \<and> seq_len + max_num_kv_chunks p \<le> 2 ^ 64
    \<longrightarrow> nblks_x p \<le> max_num_kv_chunks p
      \<and> nblks_x p * nblks_y p \<le> max_num_blks p
      \<and> 8 \<le> kv_chunk_size p
      \<and> kv_chunk_size p
          \<le> max 64 ((seq_len + max_num_kv_chunks p - 1) div max_num_kv_chunks p))
   \<and> (HND_plan nbps nsm num_heads seq_len = Inr q
      \<and> seq_len + max_num_kv_chunks q \<le> 2 ^ 64
    \<longrightarrow> nblks_x q \<le> max_num_kv_chunks q
      \<and> nblks_x q * nblks_y q \<le> max_num_blks q
      \<and> 32 \<le> kv_chunk_size q
      \<and> kv_chunk_size q
          \<le> max 128 ((seq_len + max_num_kv_chunks q - 1) div max_num_kv_chunks q))"
proof (intro conjI)
  show "NHD_plan bdy nbps nsm num_heads seq_len = Inr p
      \<and> seq_len + max_num_kv_chunks p \<le> 2 ^ 64
    \<longrightarrow> nblks_x p \<le> max_num_kv_chunks p
      \<and> nblks_x p * nblks_y p \<le> max_num_blks p
      \<and> 8 \<le> kv_chunk_size p
      \<and> kv_chunk_size p
          \<le> max 64 ((seq_len + max_num_kv_chunks p - 1) div max_num_kv_chunks p)"
  proof
    assume a: "NHD_plan bdy nbps nsm num_heads seq_len = Inr p
      \<and> seq_len + max_num_kv_chunks p \<le> 2 ^ 64"
    note b = NHD_plan_bounds [OF a [THEN conjunct1] a [THEN conjunct2]]
    show "nblks_x p \<le> max_num_kv_chunks p
      \<and> nblks_x p * nblks_y p \<le> max_num_blks p
      \<and> 8 \<le> kv_chunk_size p
      \<and> kv_chunk_size p
          \<le> max 64 ((seq_len + max_num_kv_chunks p - 1) div max_num_kv_chunks p)"
      by (intro conjI) (rule b)+
  qed
  show "HND_plan nbps nsm num_heads seq_len = Inr q
      \<and> seq_len + max_num_kv_chunks q \<le> 2 ^ 64
    \<longrightarrow> nblks_x q \<le> max_num_kv_chunks q
      \<and> nblks_x q * nblks_y q \<le> max_num_blks q
      \<and> 32 \<le> kv_chunk_size q
      \<and> kv_chunk_size q
          \<le> max 128 ((seq_len + max_num_kv_chunks q - 1) div max_num_kv_chunks q)"
  proof
    assume a: "HND_plan nbps nsm num_heads seq_len = Inr q
      \<and> seq_len + max_num_kv_chunks q \<le> 2 ^ 64"
    note b = HND_plan_bounds [OF a [THEN conjunct1] a [THEN conjunct2]]
    show "nblks_x q \<le> max_num_kv_chunks q
      \<and> nblks_x q * nblks_y q \<le> max_num_blks q
      \<and> 32 \<le> kv_chunk_size q
      \<and> kv_chunk_size q
          \<le> max 128 ((seq_len + max_num_kv_chunks q - 1) div max_num_kv_chunks q)"
      by (intro conjI) (rule b)+
  qed
qed

theorem chunk_plan_bounds_witness:
  "NHD_plan 4 1 8 32 1000
     = Inr \<lparr>max_num_blks = 8, max_num_kv_chunks = 1, kv_chunk_size = 1000, nblks_x = 1,
            nblks_y = 8\<rparr>
   \<and> (1000::nat) + 1 \<le> 2 ^ 64
   \<and> (1::nat) \<le> 1 \<and> (1::nat) * 8 \<le> 8 \<and> (8::nat) \<le> 1000
   \<and> (1000::nat) \<le> max 64 ((1000 + 1 - 1) div 1)
   \<and> HND_plan 1 8 4 1000
     = Inr \<lparr>max_num_blks = 8, max_num_kv_chunks = 2, kv_chunk_size = 500, nblks_x = 2,
            nblks_y = 4\<rparr>
   \<and> (1000::nat) + 2 \<le> 2 ^ 64
   \<and> (2::nat) \<le> 2 \<and> (2::nat) * 4 \<le> 8 \<and> (32::nat) \<le> 500
   \<and> (500::nat) \<le> max 128 ((1000 + 2 - 1) div 2)"
proof -
  let ?p = "\<lparr>max_num_blks = 8, max_num_kv_chunks = 1, kv_chunk_size = 1000, nblks_x = 1,
         nblks_y = 8\<rparr>"
  let ?q = "\<lparr>max_num_blks = 8, max_num_kv_chunks = 2, kv_chunk_size = 500, nblks_x = 2,
         nblks_y = 4\<rparr>"
  note n = chunk_plan_bounds [where bdy = 4 and nbps = 1 and nsm = 8 and num_heads = 32
      and seq_len = 1000 and p = ?p, THEN conjunct1]
  note h = chunk_plan_bounds [where nbps = 1 and nsm = 8 and num_heads = 4
      and seq_len = 1000 and q = ?q, THEN conjunct2]
  show ?thesis
    using n h by (simp add: NHD_plan_example HND_plan_example)
qed

text \<open>
  The claim as stated fails in three places. With 32 heads, \<open>bdy = 4\<close>, 8 resident
  groups and a sequence of 1000 positions the NHD chunk size is 1000, above the ceiling
  64. With a sequence length of \<open>2 ^ 64 - 80\<close>, 4 heads and 100 resident groups the sum
  \<open>seq_len + max_num_kv_chunks - 1\<close> wraps around, the chunk size is 64 and the grid has
  \<open>2 ^ 32 - 1\<close> chunks, more than the 100 groups the device hosts. With 64 heads of
  dimension 64 (16 rows of groups) and 8 resident groups the grid would need more groups
  than the device hosts: \<open>max_num_kv_chunks\<close> is 0 and the function divides by it
  before its \<^verbatim>\<open>assert\<close> and before the launch whose error code it would return.
\<close>

theorem chunk_size_ceiling_counterexample:
  "NHD_plan 4 1 8 32 1000
     = Inr \<lparr>max_num_blks = 8, max_num_kv_chunks = 1, kv_chunk_size = 1000, nblks_x = 1,
            nblks_y = 8\<rparr>
   \<and> \<not> kv_chunk_size \<lparr>max_num_blks = 8, max_num_kv_chunks = 1, kv_chunk_size = 1000,
          nblks_x = 1, nblks_y = 8\<rparr> \<le> 64
   \<and> NHD_plan 4 1 100 4 18446744073709551536
     = Inr \<lparr>max_num_blks = 100, max_num_kv_chunks = 100, kv_chunk_size = 64,
            nblks_x = 4294967295, nblks_y = 1\<rparr>
   \<and> \<not> nblks_x \<lparr>max_num_blks = 100, max_num_kv_chunks = 100, kv_chunk_size = 64,
          nblks_x = 4294967295, nblks_y = 1\<rparr> \<le> 100
   \<and> SingleDecodeWithKVCache
        \<lparr>device_attribute = (0, 8), occupancy = (0, 1), launch_kernel = (\<lambda>c. 0),
           ndebug = False\<rparr> 2 64 1000 64 kNHD kNone
     = Undefined_Behaviour Division_By_Zero"
proof (intro conjI)
  show "NHD_plan 4 1 8 32 1000
     = Inr \<lparr>max_num_blks = 8, max_num_kv_chunks = 1, kv_chunk_size = 1000, nblks_x = 1,
            nblks_y = 8\<rparr>"
    by (rule NHD_plan_example)
  show "\<not> kv_chunk_size \<lparr>max_num_blks = 8, max_num_kv_chunks = 1, kv_chunk_size = 1000,
          nblks_x = 1, nblks_y = 8\<rparr> \<le> 64"
    by simp
  show "NHD_plan 4 1 100 4 18446744073709551536
     = Inr \<lparr>max_num_blks = 100, max_num_kv_chunks = 100, kv_chunk_size = 64,
            nblks_x = 4294967295, nblks_y = 1\<rparr>"
    by (simp add: NHD_plan_def size_t_of_int_numerals u64_def u32_def sub1_u64_def Let_def)
  show "\<not> nblks_x \<lparr>max_num_blks = 100, max_num_kv_chunks = 100, kv_chunk_size = 64,
          nblks_x = 4294967295, nblks_y = 1\<rparr> \<le> 100"
    by simp
  have "NHD_plan 4 1 8 64 1000 = Inl Division_By_Zero"
    by (simp add: NHD_plan_def size_t_of_int_numerals u64_def Let_def)
  then show "SingleDecodeWithKVCache
        \<lparr>device_attribute = (0, 8), occupancy = (0, 1), launch_kernel = (\<lambda>c. 0),
           ndebug = False\<rparr> 2 64 1000 64 kNHD kNone
     = Undefined_Behaviour Division_By_Zero"
    by (simp add: SingleDecodeWithKVCache_def SWITCH_HEAD_DIM_def NHD_launch_def
        cudaSuccess_def Let_def)
qed

text \<open>
  Claim C8. \<^verbatim>\<open>SingleDecodeWithKVCache\<close> aborts, before any launch, for every
  \<open>head_dim\<close> outside 64, 128, 256, for every rotary mode other than \<^verbatim>\<open>kNone\<close> and
  \<^verbatim>\<open>kApplyRotary\<close> and for every layout other than \<^verbatim>\<open>kNHD\<close> and \<^verbatim>\<open>kHND\<close>; with a
  supported configuration, a failing query of the multiprocessor count or of the
  occupancy returns its error code to the caller and no kernel is launched.
\<close>

theorem config_errors_abort_query_errors_return:
  "(head_dim \<notin> {64, 128, 256}
      \<longrightarrow> is_aborted (SingleDecodeWithKVCache env sz num_heads seq_len head_dim qkv_layout
            rotary_mode))
   \<and> (rotary_mode \<notin> {kNone, kApplyRotary}
      \<longrightarrow> is_aborted (SingleDecodeWithKVCache env sz num_heads seq_len head_dim qkv_layout
            rotary_mode))
   \<and> (qkv_layout \<notin> {kNHD, kHND}
      \<longrightarrow> is_aborted (SingleDecodeWithKVCache env sz num_heads seq_len head_dim qkv_layout
            rotary_mode))
   \<and> (head_dim \<in> {64, 128, 256} \<and> rotary_mode \<in> {kNone, kApplyRotary}
        \<and> qkv_layout \<in> {kNHD, kHND} \<and> fst (device_attribute env) \<noteq> cudaSuccess
      \<longrightarrow> SingleDecodeWithKVCache env sz num_heads seq_len head_dim qkv_layout rotary_mode
          = Returned (fst (device_attribute env)) None)
   \<and> (head_dim \<in> {64, 128, 256} \<and> rotary_mode \<in> {kNone, kApplyRotary}
        \<and> qkv_layout \<in> {kNHD, kHND} \<and> fst (device_attribute env) = cudaSuccess
        \<and> fst (occupancy env) \<noteq> cudaSuccess
      \<longrightarrow> SingleDecodeWithKVCache env sz num_heads seq_len head_dim qkv_layout rotary_mode
          = Returned (fst (occupancy env)) None)"
proof (intro conjI impI)
  assume "head_dim \<notin> {64, 128, 256}"
  then show "is_aborted (SingleDecodeWithKVCache env sz num_heads seq_len head_dim qkv_layout
            rotary_mode)"
    by (simp add: SingleDecodeWithKVCache_def SWITCH_HEAD_DIM_def)
next
  assume "rotary_mode \<notin> {kNone, kApplyRotary}"
  then obtain n where "rotary_mode = RotaryMode_other n"
    by (cases rotary_mode) simp_all
  then show "is_aborted (SingleDecodeWithKVCache env sz num_heads seq_len head_dim qkv_layout
            rotary_mode)"
    by (simp add: SingleDecodeWithKVCache_def SWITCH_HEAD_DIM_def)
next
  assume "qkv_layout \<notin> {kNHD, kHND}"
  then show "is_aborted (SingleDecodeWithKVCache env sz num_heads seq_len head_dim qkv_layout
            rotary_mode)"
    by (simp add: SingleDecodeWithKVCache_def)
next
  assume "head_dim \<in> {64, 128, 256} \<and> rotary_mode \<in> {kNone, kApplyRotary}
        \<and> qkv_layout \<in> {kNHD, kHND} \<and> fst (device_attribute env) \<noteq> cudaSuccess"
  then show "SingleDecodeWithKVCache env sz num_heads seq_len head_dim qkv_layout rotary_mode
          = Returned (fst (device_attribute env)) None"
    by (auto simp: SingleDecodeWithKVCache_def SWITCH_HEAD_DIM_def NHD_launch_def
          HND_launch_def Let_def)
next
  assume "head_dim \<in> {64, 128, 256} \<and> rotary_mode \<in> {kNone, kApplyRotary}
        \<and> qkv_layout \<in> {kNHD, kHND} \<and> fst (device_attribute env) = cudaSuccess
        \<and> fst (occupancy env) \<noteq> cudaSuccess"
  then show "SingleDecodeWithKVCache env sz num_heads seq_len head_dim qkv_layout rotary_mode
          = Returned (fst (occupancy env)) None"
    by (auto simp: SingleDecodeWithKVCache_def SWITCH_HEAD_DIM_def NHD_launch_def
          HND_launch_def Let_def)
qed

theorem config_errors_abort_query_errors_return_witness:
  "(100::nat) \<notin> {64, 128, 256}
   \<and> is_aborted (SingleDecodeWithKVCache
        \<lparr>device_attribute = (0, 8), occupancy = (0, 1), launch_kernel = (\<lambda>c. 0),
           ndebug = False\<rparr> 2 32 1000 100 kNHD kNone)
   \<and> RotaryMode_other 2 \<notin> {kNone, kApplyRotary}
   \<and> is_aborted (SingleDecodeWithKVCache
        \<lparr>device_attribute = (0, 8), occupancy = (0, 1), launch_kernel = (\<lambda>c. 0),
           ndebug = False\<rparr> 2 32 1000 64 kHND (RotaryMode_other 2))
   \<and> QKVLayout_other 2 \<notin> {kNHD, kHND}
   \<and> is_aborted (SingleDecodeWithKVCache
        \<lparr>device_attribute = (0, 8), occupancy = (0, 1), launch_kernel = (\<lambda>c. 0),
           ndebug = False\<rparr> 2 32 1000 64 (QKVLayout_other 2) kNone)
   \<and> SingleDecodeWithKVCache
        \<lparr>device_attribute = (3, 0), occupancy = (0, 1), launch_kernel = (\<lambda>c. 0),
           ndebug = False\<rparr> 2 32 1000 64 kNHD kNone
      = Returned 3 None
   \<and> SingleDecodeWithKVCache
        \<lparr>device_attribute = (0, 8), occupancy = (5, 0), launch_kernel = (\<lambda>c. 0),
           ndebug = False\<rparr> 2 32 1000 128 kHND kApplyRotary
      = Returned 5 None"
proof (intro conjI)
  let ?ok = "\<lparr>device_attribute = (0, 8), occupancy = (0, 1), launch_kernel = (\<lambda>c. 0),
           ndebug = False\<rparr>"
  show "(100::nat) \<notin> {64, 128, 256}" by simp
  show "is_aborted (SingleDecodeWithKVCache ?ok 2 32 1000 100 kNHD kNone)"
    using config_errors_abort_query_errors_return [of 100 ?ok 2 32 1000 kNHD kNone]
    by simp
  show "RotaryMode_other 2 \<notin> {kNone, kApplyRotary}" by simp
  show "is_aborted (SingleDecodeWithKVCache ?ok 2 32 1000 64 kHND (RotaryMode_other 2))"
    using config_errors_abort_query_errors_return [of 64 ?ok 2 32 1000 kHND "RotaryMode_other 2"]
    by simp
  show "QKVLayout_other 2 \<notin> {kNHD, kHND}" by simp
  show "is_aborted (SingleDecodeWithKVCache ?ok 2 32 1000 64 (QKVLayout_other 2) kNone)"
    using config_errors_abort_query_errors_return [of 64 ?ok 2 32 1000 "QKVLayout_other 2" kNone]
    by simp
  show "SingleDecodeWithKVCache
        \<lparr>device_attribute = (3, 0), occupancy = (0, 1), launch_kernel = (\<lambda>c. 0),
           ndebug = False\<rparr> 2 32 1000 64 kNHD kNone
      = Returned 3 None"
    using config_errors_abort_query_errors_return [of 64
        "\<lparr>device_attribute = (3, 0), occupancy = (0, 1), launch_kernel = (\<lambda>c. 0),
           ndebug = False\<rparr>" 2 32 1000 kNHD kNone]
    by (simp add: cudaSuccess_def)
  show "SingleDecodeWithKVCache
        \<lparr>device_attribute = (0, 8), occupancy = (5, 0), launch_kernel = (\<lambda>c. 0),
           ndebug = False\<rparr> 2 32 1000 128 kHND kApplyRotary
      = Returned 5 None"
    using config_errors_abort_query_errors_return [of 128
        "\<lparr>device_attribute = (0, 8), occupancy = (5, 0), launch_kernel = (\<lambda>c. 0),
           ndebug = False\<rparr>" 2 32 1000 kHND kApplyRotary]
    by (simp add: cudaSuccess_def)
qed

text \<open>
  Claim C10, as the code has it. When \<open>num_heads / bdy\<close> (NHD), respectively
  \<open>num_heads\<close> (HND), is at least 1 and at most the number of concurrently resident
  blocks \<open>num_blocks_per_sm * num_sm\<close>, the plan is computed without a division by zero
  and its divisor \<open>max_num_kv_chunks\<close> is strictly positive.
\<close>

theorem max_num_kv_chunks_positive:
  "(1 \<le> num_heads div bdy
      \<and> num_heads div bdy \<le> u64 (size_t_of_int nbps * size_t_of_int nsm)
    \<longrightarrow> (\<exists>p. NHD_plan bdy nbps nsm num_heads seq_len = Inr p \<and> 0 < max_num_kv_chunks p))
   \<and> (1 \<le> num_heads \<and> num_heads \<le> u64 (size_t_of_int nbps * size_t_of_int nsm)
    \<longrightarrow> (\<exists>p. HND_plan nbps nsm num_heads seq_len = Inr p \<and> 0 < max_num_kv_chunks p))"
  using NHD_plan_ok [of num_heads bdy nbps nsm seq_len]
    HND_plan_ok [of num_heads nbps nsm seq_len]
  by blast

theorem max_num_kv_chunks_positive_witness:
  "(1::nat) \<le> 32 div 4 \<and> (32::nat) div 4 \<le> u64 (size_t_of_int 1 * size_t_of_int 8)
   \<and> (\<exists>p. NHD_plan 4 1 8 32 1000 = Inr p \<and> 0 < max_num_kv_chunks p)
   \<and> (1::nat) \<le> 4 \<and> (4::nat) \<le> u64 (size_t_of_int 1 * size_t_of_int 8)
   \<and> (\<exists>p. HND_plan 1 8 4 1000 = Inr p \<and> 0 < max_num_kv_chunks p)"
proof -
  have a: "(1::nat) \<le> 32 div 4" "(32::nat) div 4 \<le> u64 (size_t_of_int 1 * size_t_of_int 8)"
    "(1::nat) \<le> 4" "(4::nat) \<le> u64 (size_t_of_int 1 * size_t_of_int 8)"
    by (simp_all add: size_t_of_int_numerals u64_def)
  have "\<exists>p. NHD_plan 4 1 8 32 1000 = Inr p \<and> 0 < max_num_kv_chunks p"
    using max_num_kv_chunks_positive [of 32 4 1 8 1000, THEN conjunct1] a(1,2) by blast
  moreover have "\<exists>p. HND_plan 1 8 4 1000 = Inr p \<and> 0 < max_num_kv_chunks p"
    using max_num_kv_chunks_positive [of 4 4 1 8 1000, THEN conjunct2] a(3,4) by blast
  ultimately show ?thesis using a by blast
qed

text \<open>
  The claim as stated fails: with 2 heads and \<open>bdy = 4\<close> the number of resident blocks
  (216) is at least \<open>num_heads / bdy = 0\<close>, and \<open>max_num_blks / (num_heads / bdy)\<close> is a
  division by zero; so it is for the HND layout with no head.
\<close>

theorem max_num_kv_chunks_counterexample:
  "(2::nat) div 4 \<le> u64 (size_t_of_int 2 * size_t_of_int 108)
   \<and> NHD_plan 4 2 108 2 100 = Inl Division_By_Zero
   \<and> (0::nat) \<le> u64 (size_t_of_int 2 * size_t_of_int 108)
   \<and> HND_plan 2 108 0 100 = Inl Division_By_Zero"
  by (simp add: NHD_plan_def HND_plan_def Let_def)

section \<open>The claims about the merge and the accumulation stage\<close>

text \<open>
  Claim C2. The two-state merge of running states \<open>(o1, m1, d1)\<close> and \<open>(o2, m2, d2)\<close>
  computes \<open>m' = max m1 m2\<close>, \<open>d' = d1 * exp (m1 - m') + d2 * exp (m2 - m')\<close> and
  \<open>o' = o1 * exp (m1 - m') + o2 * exp (m2 - m')\<close> componentwise, and the operation is
  commutative and associative on all states.
\<close>

theorem merge_rule_comm_assoc:
  "merge \<lparr>so = o1, sm = Fin m1, sd = d1\<rparr> \<lparr>so = o2, sm = Fin m2, sd = d2\<rparr>
     = \<lparr>so = map2 (\<lambda>a b. a * exp (m1 - max m1 m2) + b * exp (m2 - max m1 m2)) o1 o2,
        sm = Fin (max m1 m2),
        sd = d1 * exp (m1 - max m1 m2) + d2 * exp (m2 - max m1 m2)\<rparr>
   \<and> merge A B = merge B A
   \<and> merge (merge A B) C = merge A (merge B C)"
proof (intro conjI)
  show "merge \<lparr>so = o1, sm = Fin m1, sd = d1\<rparr> \<lparr>so = o2, sm = Fin m2, sd = d2\<rparr>
     = \<lparr>so = map2 (\<lambda>a b. a * exp (m1 - max m1 m2) + b * exp (m2 - max m1 m2)) o1 o2,
        sm = Fin (max m1 m2),
        sd = d1 * exp (m1 - max m1 m2) + d2 * exp (m2 - max m1 m2)\<rparr>"
    by (simp add: merge_def merge_mdo_def Let_def)
  show "merge A B = merge B A" by (rule merge_commute)
  show "merge (merge A B) C = merge A (merge B C)" by (rule merge_assoc)
qed

theorem merge_rule_comm_assoc_witness:
  "merge \<lparr>so = [1, 2], sm = Fin 0, sd = 1\<rparr> \<lparr>so = [3, 4], sm = Fin 0, sd = 2\<rparr>
     = \<lparr>so = [4, 6], sm = Fin 0, sd = 3\<rparr>
   \<and> merge \<lparr>so = [1, 2], sm = Fin 0, sd = 1\<rparr> (init 2)
       = \<lparr>so = [1, 2], sm = Fin 0, sd = 1\<rparr>
   \<and> merge (init 2) \<lparr>so = [1, 2], sm = Fin 0, sd = 1\<rparr>
       = \<lparr>so = [1, 2], sm = Fin 0, sd = 1\<rparr>"
proof (intro conjI)
  show "merge \<lparr>so = [1, 2], sm = Fin 0, sd = 1\<rparr> \<lparr>so = [3, 4], sm = Fin 0, sd = 2\<rparr>
     = \<lparr>so = [4, 6], sm = Fin 0, sd = 3\<rparr>"
    using merge_rule_comm_assoc [of "[1, 2]" 0 1 "[3, 4]" 0 2, THEN conjunct1] by simp
  show "merge \<lparr>so = [1, 2], sm = Fin 0, sd = 1\<rparr> (init 2)
       = \<lparr>so = [1, 2], sm = Fin 0, sd = 1\<rparr>"
    by (simp add: merge_def merge_mdo_def init_def Let_def numeral_2_eq_2)
  show "merge (init 2) \<lparr>so = [1, 2], sm = Fin 0, sd = 1\<rparr>
       = \<lparr>so = [1, 2], sm = Fin 0, sd = 1\<rparr>"
    by (simp add: merge_def merge_mdo_def init_def Let_def numeral_2_eq_2)
qed

text \<open>
  Claim C3. The accumulation stage of both layouts: when the validity predicate is true,
  the state \<open>(o, m, d)\<close> is updated with the score \<open>x\<close> and the staged value vector \<open>v\<close>
  by \<open>m' = max m x\<close>, \<open>d' = d * exp (m - m') + exp (x - m')\<close>,
  \<open>o' = o * exp (m - m') + exp (x - m') * v\<close> (where a state at minus infinity is scaled
  by 0); when the predicate is false the state is returned unchanged.
\<close>

theorem update_partial_state_fold_rule:
  "HND_update_partial_state head_dim vec_size smem x offs ci True
       \<lparr>so = ov, sm = Fin m0, sd = dd\<rparr> tx ty
     = \<lparr>so = map2 (\<lambda>a b. a * exp (m0 - max m0 x) + exp (x - max m0 x) * b) ov
               (vec_load vec_size smem (offs ! ci + ty * head_dim + tx * vec_size)),
        sm = Fin (max m0 x),
        sd = dd * exp (m0 - max m0 x) + exp (x - max m0 x)\<rparr>
   \<and> HND_update_partial_state head_dim vec_size smem x offs ci True
       \<lparr>so = ov, sm = NegInf, sd = dd\<rparr> tx ty
     = \<lparr>so = map2 (\<lambda>a b. a * 0 + 1 * b) ov
               (vec_load vec_size smem (offs ! ci + ty * head_dim + tx * vec_size)),
        sm = Fin x,
        sd = dd * 0 + 1\<rparr>
   \<and> HND_update_partial_state head_dim vec_size smem x offs ci False s tx ty = s
   \<and> NHD_update_partial_state head_dim vec_size bdy smem x offs ci True
       \<lparr>so = ov, sm = Fin m0, sd = dd\<rparr> tx ty tz
     = \<lparr>so = map2 (\<lambda>a b. a * exp (m0 - max m0 x) + exp (x - max m0 x) * b) ov
               (vec_load vec_size smem
                  (offs ! ci + (tz * bdy + ty) * head_dim + tx * vec_size)),
        sm = Fin (max m0 x),
        sd = dd * exp (m0 - max m0 x) + exp (x - max m0 x)\<rparr>
   \<and> NHD_update_partial_state head_dim vec_size bdy smem x offs ci True
       \<lparr>so = ov, sm = NegInf, sd = dd\<rparr> tx ty tz
     = \<lparr>so = map2 (\<lambda>a b. a * 0 + 1 * b) ov
               (vec_load vec_size smem
                  (offs ! ci + (tz * bdy + ty) * head_dim + tx * vec_size)),
        sm = Fin x,
        sd = dd * 0 + 1\<rparr>
   \<and> NHD_update_partial_state head_dim vec_size bdy smem x offs ci False s tx ty tz = s"
  by (simp add: HND_update_partial_state_def NHD_update_partial_state_def merge_xv_def Let_def)

theorem update_partial_state_fold_rule_witness:
  "HND_update_partial_state 4 2 (\<lambda>i. real i) 0 [0, 8, 16, 24] 1 True
       \<lparr>so = [1, 1], sm = Fin 0, sd = 1\<rparr> 1 1
     = \<lparr>so = [15, 16], sm = Fin 0, sd = 2\<rparr>
   \<and> HND_update_partial_state 4 2 (\<lambda>i. real i) 0 [0, 8, 16, 24] 1 True (init 2) 1 1
     = \<lparr>so = [14, 15], sm = Fin 0, sd = 1\<rparr>
   \<and> HND_update_partial_state 4 2 (\<lambda>i. real i) 0 [0, 8, 16, 24] 1 False (init 2) 1 1
     = init 2
   \<and> NHD_update_partial_state 4 2 2 (\<lambda>i. real i) 0 [0, 16, 32, 48] 1 True (init 2) 1 1 1
     = \<lparr>so = [30, 31], sm = Fin 0, sd = 1\<rparr>
   \<and> NHD_update_partial_state 4 2 2 (\<lambda>i. real i) 0 [0, 16, 32, 48] 1 False (init 2) 1 1 1
     = init 2"
proof (intro conjI)
  have ld: "vec_load 2 (\<lambda>i. real i) 14 = [14, 15]" "vec_load 2 (\<lambda>i. real i) 30 = [30, 31]"
    by (simp_all add: vec_load_def upt_rec)
  have rp: "replicate 2 (0::real) = [0, 0]"
    by (simp add: numeral_2_eq_2)
  show "HND_update_partial_state 4 2 (\<lambda>i. real i) 0 [0, 8, 16, 24] 1 True
       \<lparr>so = [1, 1], sm = Fin 0, sd = 1\<rparr> 1 1
     = \<lparr>so = [15, 16], sm = Fin 0, sd = 2\<rparr>"
    using update_partial_state_fold_rule
      [of 4 2 "\<lambda>i. real i" 0 "[0, 8, 16, 24]" 1 "[1, 1]" 0 1 1 1, THEN conjunct1]
    by (simp add: ld)
  show "HND_update_partial_state 4 2 (\<lambda>i. real i) 0 [0, 8, 16, 24] 1 True (init 2) 1 1
     = \<lparr>so = [14, 15], sm = Fin 0, sd = 1\<rparr>"
    by (simp add: HND_update_partial_state_def merge_xv_def init_def Let_def ld rp)
  show "HND_update_partial_state 4 2 (\<lambda>i. real i) 0 [0, 8, 16, 24] 1 False (init 2) 1 1
     = init 2"
    by (simp add: HND_update_partial_state_def)
  show "NHD_update_partial_state 4 2 2 (\<lambda>i. real i) 0 [0, 16, 32, 48] 1 True (init 2) 1 1 1
     = \<lparr>so = [30, 31], sm = Fin 0, sd = 1\<rparr>"
    by (simp add: NHD_update_partial_state_def merge_xv_def init_def Let_def ld rp)
  show "NHD_update_partial_state 4 2 2 (\<lambda>i. real i) 0 [0, 16, 32, 48] 1 False (init 2) 1 1 1
     = init 2"
    by (simp add: NHD_update_partial_state_def)
qed

section \<open>The decode kernels: memory, registers and what a launch is given\<close>

text \<open>
  The kernels \<^verbatim>\<open>HND::SingleDecodeWithKVCacheKernel\<close> and
  \<^verbatim>\<open>NHD::SingleDecodeWithKVCacheKernel\<close> of \<^verbatim>\<open>decode.cuh\<close> are embedded group by group: the
  registers of a group are functions of the thread index, and a statement between two
  barriers is run by every thread of the group at once.
\<close>

text \<open>
  The scratch buffer \<^verbatim>\<open>tmp\<close> and the \<^verbatim>\<open>float\<close> views of shared memory that
  \<^verbatim>\<open>sync_state\<close> writes hold floats, among them the running maximum, which is minus
  infinity in a state that has merged nothing: their cells are \<open>score_max\<close> values, and
  \<open>fin_of\<close> reads a cell as the finite float it holds.
\<close>

type_synonym fmem = "nat \<Rightarrow> score_max"

fun fin_of :: "score_max \<Rightarrow> real" where
  "fin_of (Fin r) = r"
| "fin_of NegInf = 0"

text \<open>
  \<^verbatim>\<open>cuda::memcpy_async(dst, src, frag_shape, pipeline)\<close> copies the \<open>n\<close> elements at
  \<open>src\<close> to \<open>dst\<close>. Every copy of a stage is committed before the \<^verbatim>\<open>consumer_wait\<close> and
  the \<^verbatim>\<open>block.sync\<close> that precede the first read of its slot, and no slot is read between
  the issue of a copy into it and that wait, so a copy is taken as done when it is issued.
  \<open>block_memcpy_async\<close> is the copy of every thread of the group whose guard holds.
\<close>

definition memcpy_async :: "mem \<Rightarrow> nat \<Rightarrow> mem \<Rightarrow> nat \<Rightarrow> nat \<Rightarrow> mem" where
  "memcpy_async dst_mem dst src_mem src n =
     (\<lambda>a. if dst \<le> a \<and> a < dst + n then src_mem (src + (a - dst)) else dst_mem a)"

definition block_memcpy_async ::
  "'th list \<Rightarrow> ('th \<Rightarrow> bool) \<Rightarrow> ('th \<Rightarrow> nat) \<Rightarrow> mem \<Rightarrow> ('th \<Rightarrow> nat) \<Rightarrow> nat \<Rightarrow> mem \<Rightarrow> mem" where
  "block_memcpy_async threads guard dst src_mem src n smem =
     foldl (\<lambda>sm t. if guard t then memcpy_async sm (dst t) src_mem (src t) n else sm)
       smem threads"

text \<open>
  \<^verbatim>\<open>vec_t<float, vec_size>::store\<close> and \<^verbatim>\<open>load\<close> on a float buffer (\<^verbatim>\<open>vec_dtypes.cuh\<close> is
  not among the sources; the names say what they do): the \<open>vec_size\<close> elements at the pointer.
\<close>

definition vec_store :: "fmem \<Rightarrow> nat \<Rightarrow> real list \<Rightarrow> fmem" where
  "vec_store fm p v = (\<lambda>a. if p \<le> a \<and> a < p + length v then Fin (v ! (a - p)) else fm a)"

definition fvec_load :: "nat \<Rightarrow> fmem \<Rightarrow> nat \<Rightarrow> real list" where
  "fvec_load vec_size fm p = map (\<lambda>a. fin_of (fm a)) [p ..< p + vec_size]"

text \<open>
  The difference of two \<^verbatim>\<open>size_t\<close> values, which wraps around below zero.
\<close>

definition sub_u64 :: "nat \<Rightarrow> nat \<Rightarrow> nat" where
  "sub_u64 a b = (a + (2 ^ 64 - b mod 2 ^ 64)) mod 2 ^ 64"

text \<open>
  What one launch of a kernel is given: the arithmetic of the device, the template
  arguments (\<^verbatim>\<open>rotary_mode\<close>, \<^verbatim>\<open>head_dim\<close>, \<^verbatim>\<open>vec_size\<close>, \<^verbatim>\<open>bdx\<close>, \<^verbatim>\<open>bdy\<close>, \<^verbatim>\<open>bdz\<close>; the HND kernel has
  no \<^verbatim>\<open>bdz\<close>), the function \<^verbatim>\<open>apply_rotary\<close> of \<^verbatim>\<open>rope.cuh\<close>, the arguments of the kernel
  (the arrays \<^verbatim>\<open>q\<close>, \<^verbatim>\<open>k\<close>, \<^verbatim>\<open>v\<close> as memories; \<^verbatim>\<open>o\<close> and \<^verbatim>\<open>tmp\<close> are outputs), the grid, and
  what shared memory holds when the group starts (as \<^verbatim>\<open>DTypeIn\<close>, and through the casts to
  \<^verbatim>\<open>float *\<close> that \<^verbatim>\<open>sync_state\<close> is called with). Products and sums of indices are taken in
  the natural numbers: they are addresses of buffers that exist, below \<open>2 ^ 64\<close>.
\<close>

record kernel_args =
  arg_float :: float_ops
  arg_rotary_mode :: RotaryMode
  arg_apply_rotary :: rotary_fn
  arg_head_dim :: nat
  arg_vec_size :: nat
  arg_bdx :: nat
  arg_bdy :: nat
  arg_bdz :: nat
  arg_q :: mem
  arg_k :: mem
  arg_v :: mem
  arg_sm_scale :: real
  arg_seq_len :: nat
  arg_rope_inv_scale :: real
  arg_rope_inv_theta :: real
  arg_kv_chunk_size :: nat
  arg_gridDim_x :: nat
  arg_gridDim_y :: nat
  arg_smem :: mem
  arg_smem_f :: fmem
  arg_smem_md :: fmem

text \<open>
  The state of a group between two barriers: shared memory, and for every thread its
  registers \<^verbatim>\<open>x\<close> and \<^verbatim>\<open>s_partial\<close>; \<^verbatim>\<open>copy_stage_idx\<close> and \<^verbatim>\<open>compute_stage_idx\<close> have the same
  value in every thread. The threads of a group run the same statements between two
  \<^verbatim>\<open>block.sync()\<close>; a statement of the kernel is modelled for the whole group at once.
\<close>

record 'th regs =
  r_smem :: mem
  r_x :: "'th \<Rightarrow> real"
  r_s_partial :: "'th \<Rightarrow> state_t"
  r_copy_stage_idx :: nat
  r_compute_stage_idx :: nat

text \<open>
  \<^verbatim>\<open>constexpr size_t stages_count = 4\<close> and the array \<^verbatim>\<open>kv_shared_offset\<close> of tile offsets.
\<close>

definition stages_count :: nat where
  "stages_count = 4"

definition kv_shared_offset_of :: "nat \<Rightarrow> nat list" where
  "kv_shared_offset_of tile = [0, 1 * tile, 2 * tile, 3 * tile]"

text \<open>
  The frequency table of thread \<open>tx\<close>:
  \<^verbatim>\<open>rope_inv_scale * powf(rope_inv_theta, float(2 * ((tx * vec_size + i) % (head_dim / 2))) / float(head_dim))\<close>.
\<close>

definition rotary_emb_of :: "kernel_args \<Rightarrow> nat \<Rightarrow> real list" where
  "rotary_emb_of A tx =
     map (\<lambda>i. fl_mul (arg_float A) (arg_rope_inv_scale A)
               (fl_powf (arg_float A) (arg_rope_inv_theta A)
                  (fl_div (arg_float A)
                     (fl_of_nat (arg_float A)
                        (2 * ((tx * arg_vec_size A + i) mod (arg_head_dim A div 2))))
                     (fl_of_nat (arg_float A) (arg_head_dim A)))))
       [0 ..< arg_vec_size A]"

text \<open>
  The query register of thread \<open>tx\<close> (lines 180-192 and 495-507): with
  \<^verbatim>\<open>kApplyRotary\<close>, \<^verbatim>\<open>apply_rotary(q + head_idx * head_dim, rotary_emb, seq_len - 1)\<close>, otherwise
  the cast load of the slice of the thread.
\<close>

definition q_vec_of :: "kernel_args \<Rightarrow> nat \<Rightarrow> nat \<Rightarrow> real list" where
  "q_vec_of A head_idx tx =
     (if arg_rotary_mode A = kApplyRotary
      then arg_apply_rotary A
             (vec_load (arg_head_dim A) (arg_q A) (head_idx * arg_head_dim A))
             (rotary_emb_of A tx) (sub1_u64 (arg_seq_len A)) tx
      else vec_load (arg_vec_size A) (arg_q A)
             (head_idx * arg_head_dim A + tx * arg_vec_size A))"

text \<open>
  \<^verbatim>\<open>chunk_start = kv_chunk_idx * kv_chunk_size\<close>,
  \<^verbatim>\<open>kv_chunk_size = min(kv_chunk_size, seq_len - chunk_start)\<close> and
  \<^verbatim>\<open>chunk_end = chunk_start + kv_chunk_size\<close>.
\<close>

definition chunk_start_of :: "kernel_args \<Rightarrow> nat \<Rightarrow> nat" where
  "chunk_start_of A kv_chunk_idx = kv_chunk_idx * arg_kv_chunk_size A"

definition chunk_size_of :: "kernel_args \<Rightarrow> nat \<Rightarrow> nat" where
  "chunk_size_of A kv_chunk_idx =
     min (arg_kv_chunk_size A) (sub_u64 (arg_seq_len A) (chunk_start_of A kv_chunk_idx))"

definition chunk_end_of :: "kernel_args \<Rightarrow> nat \<Rightarrow> nat" where
  "chunk_end_of A kv_chunk_idx = chunk_start_of A kv_chunk_idx + chunk_size_of A kv_chunk_idx"

text \<open>
  The stores of every thread of a group (or of the grid) to a float buffer, one thread
  after the other: of a vector, and of one cell.
\<close>

definition block_store :: "'th list \<Rightarrow> ('th \<Rightarrow> nat) \<Rightarrow> ('th \<Rightarrow> real list) \<Rightarrow> fmem \<Rightarrow> fmem" where
  "block_store threads dst vecs fm = foldl (\<lambda>m t. vec_store m (dst t) (vecs t)) fm threads"

definition cell_store :: "fmem \<Rightarrow> nat \<Rightarrow> score_max \<Rightarrow> fmem" where
  "cell_store fm p c = (\<lambda>a. if a = p then c else fm a)"

definition block_store_cell ::
  "'th list \<Rightarrow> ('th \<Rightarrow> nat) \<Rightarrow> ('th \<Rightarrow> score_max) \<Rightarrow> fmem \<Rightarrow> fmem" where
  "block_store_cell threads dst vals fm = foldl (\<lambda>m t. cell_store m (dst t) (vals t)) fm threads"

section \<open>The HND kernel\<close>

text \<open>
  The threads \<open>(tx, ty)\<close> of a group of the HND kernel and the tile offsets of its stages.
\<close>

definition HND_threads :: "kernel_args \<Rightarrow> (nat \<times> nat) list" where
  "HND_threads A = List.product [0 ..< arg_bdx A] [0 ..< arg_bdy A]"

definition HND_kv_shared_offset :: "kernel_args \<Rightarrow> nat list" where
  "HND_kv_shared_offset A = kv_shared_offset_of (arg_bdy A * arg_head_dim A)"

text \<open>
  One load stage of the HND kernel: every thread whose guard holds copies the slice
  \<open>tx\<close> of the row \<open>kv_idx\<close> of head \<open>head_idx\<close> of \<^verbatim>\<open>k\<close> or \<^verbatim>\<open>v\<close> to the row \<open>ty\<close> of the
  slot \<open>stage_idx\<close>.
\<close>

definition HND_load_tile ::
  "kernel_args \<Rightarrow> nat \<Rightarrow> mem \<Rightarrow> nat \<Rightarrow> (nat \<times> nat \<Rightarrow> bool) \<Rightarrow> (nat \<times> nat \<Rightarrow> nat) \<Rightarrow> mem \<Rightarrow> mem" where
  "HND_load_tile A head_idx src_mem stage_idx pred_guard kv_idx smem =
     block_memcpy_async (HND_threads A) pred_guard
       (\<lambda>(tx, ty). HND_kv_shared_offset A ! stage_idx + ty * arg_head_dim A
                     + tx * arg_vec_size A)
       src_mem
       (\<lambda>(tx, ty). (head_idx * arg_seq_len A + kv_idx (tx, ty)) * arg_head_dim A
                     + tx * arg_vec_size A)
       (arg_vec_size A) smem"

text \<open>
  Lines 204-225: the loads of the first key and value tiles, and the initial registers.
\<close>

definition HND_prologue :: "kernel_args \<Rightarrow> nat \<Rightarrow> nat \<Rightarrow> (nat \<times> nat) regs" where
  "HND_prologue A head_idx kv_chunk_idx =
     (let producer_pred_guard = (\<lambda>(tx, ty). ty < chunk_size_of A kv_chunk_idx);
          kv_idx = (\<lambda>(tx, ty). chunk_start_of A kv_chunk_idx + ty);
          smem1 = HND_load_tile A head_idx (arg_k A) 0 producer_pred_guard kv_idx (arg_smem A);
          smem2 = HND_load_tile A head_idx (arg_v A) 1 producer_pred_guard kv_idx smem1
      in \<lparr>r_smem = smem2, r_x = (\<lambda>t. 0), r_s_partial = (\<lambda>t. init (arg_vec_size A)),
          r_copy_stage_idx = 2, r_compute_stage_idx = 0\<rparr>)"

text \<open>
  The two compute stages: \<^verbatim>\<open>compute_qk\<close> on the slot \<^verbatim>\<open>compute_stage_idx\<close> writes \<^verbatim>\<open>x\<close>,
  \<^verbatim>\<open>update_partial_state\<close> on the next slot folds into \<^verbatim>\<open>s_partial\<close>. \<open>smem_qk\<close> and
  \<open>smem_upd\<close> are shared memory at the two stages (a load of values is issued between
  them in the loop).
\<close>

definition HND_compute_stages ::
  "kernel_args \<Rightarrow> nat \<Rightarrow> (nat \<times> nat \<Rightarrow> nat) \<Rightarrow> (nat \<times> nat \<Rightarrow> bool) \<Rightarrow> mem \<Rightarrow> mem
     \<Rightarrow> (nat \<times> nat) regs \<Rightarrow> (nat \<times> nat) regs" where
  "HND_compute_stages A head_idx consumer_kv_idx consumer_pred_guard smem_qk smem_upd R =
     (let c0 = r_compute_stage_idx R;
          x1 = (\<lambda>(tx, ty).
                  HND_compute_qk (arg_float A) (arg_rotary_mode A) (arg_apply_rotary A) (arg_head_dim A)
                    (arg_vec_size A) (arg_bdx A) smem_qk (q_vec_of A head_idx)
                    (rotary_emb_of A) (HND_kv_shared_offset A) (consumer_kv_idx (tx, ty)) c0
                    (arg_sm_scale A) ty ! tx);
          c1 = (c0 + 1) mod stages_count;
          s1 = (\<lambda>(tx, ty).
                  HND_update_partial_state (arg_head_dim A) (arg_vec_size A) smem_upd
                    (x1 (tx, ty)) (HND_kv_shared_offset A) c1 (consumer_pred_guard (tx, ty))
                    (r_s_partial R (tx, ty)) tx ty);
          c2 = (c1 + 1) mod stages_count
      in R\<lparr>r_smem := smem_upd, r_x := x1, r_s_partial := s1, r_compute_stage_idx := c2\<rparr>)"

text \<open>
  The body of the loop \<^verbatim>\<open>for (batch = 1; batch < (kv_chunk_size + bdy - 1) / bdy; ++batch)\<close>.
\<close>

definition HND_loop_body ::
  "kernel_args \<Rightarrow> nat \<Rightarrow> nat \<Rightarrow> nat \<Rightarrow> (nat \<times> nat) regs \<Rightarrow> (nat \<times> nat) regs" where
  "HND_loop_body A head_idx kv_chunk_idx batch R =
     (let producer_kv_idx = (\<lambda>(tx, ty). chunk_start_of A kv_chunk_idx + batch * arg_bdy A + ty);
          consumer_kv_idx =
            (\<lambda>(tx, ty). chunk_start_of A kv_chunk_idx + (batch - 1) * arg_bdy A + ty);
          producer_pred_guard = (\<lambda>t. producer_kv_idx t < chunk_end_of A kv_chunk_idx);
          consumer_pred_guard = (\<lambda>t. True);
          smem1 = HND_load_tile A head_idx (arg_k A) (r_copy_stage_idx R) producer_pred_guard
                    producer_kv_idx (r_smem R);
          copy1 = (r_copy_stage_idx R + 1) mod stages_count;
          smem2 = HND_load_tile A head_idx (arg_v A) copy1 producer_pred_guard
                    producer_kv_idx smem1;
          copy2 = (copy1 + 1) mod stages_count
      in HND_compute_stages A head_idx consumer_kv_idx consumer_pred_guard smem1 smem2
           (R\<lparr>r_copy_stage_idx := copy2\<rparr>))"

text \<open>
  The registers of the group after the loop and the last two compute stages (lines
  227-293); \<^verbatim>\<open>batch\<close> leaves the loop as the number of batches, or as 1 when the loop
  does not run.
\<close>

definition HND_chunk_state :: "kernel_args \<Rightarrow> nat \<Rightarrow> nat \<Rightarrow> (nat \<times> nat) regs" where
  "HND_chunk_state A head_idx kv_chunk_idx =
     (let num_batches = (chunk_size_of A kv_chunk_idx + arg_bdy A - 1) div arg_bdy A;
          R = foldl (\<lambda>R batch. HND_loop_body A head_idx kv_chunk_idx batch R)
                (HND_prologue A head_idx kv_chunk_idx) [1 ..< num_batches];
          batch = (if 1 < num_batches then num_batches else 1);
          consumer_kv_idx =
            (\<lambda>(tx, ty). chunk_start_of A kv_chunk_idx + (batch - 1) * arg_bdy A + ty);
          consumer_pred_guard = (\<lambda>t. consumer_kv_idx t < chunk_end_of A kv_chunk_idx)
      in HND_compute_stages A head_idx consumer_kv_idx consumer_pred_guard (r_smem R)
           (r_smem R) R)"

text \<open>
  \<^verbatim>\<open>HND::sync_state\<close> (lines 112-128): every thread stores its state to the float buffers,
  and after the barrier merges the \<open>bdy\<close> stored states of its lane into a state that
  starts from \<^verbatim>\<open>init()\<close>. The result is the registers of the group and the buffers.
\<close>

definition HND_sync_store ::
  "kernel_args \<Rightarrow> (nat \<times> nat \<Rightarrow> state_t) \<Rightarrow> fmem \<times> fmem \<Rightarrow> fmem \<times> fmem" where
  "HND_sync_store A s bufs =
     (block_store (HND_threads A) (\<lambda>(tx, ty). ty * arg_head_dim A + tx * arg_vec_size A)
        (\<lambda>t. so (s t)) (fst bufs),
      block_store_cell (HND_threads A) (\<lambda>(tx, ty). ty * 2 + 1) (\<lambda>t. Fin (sd (s t)))
        (block_store_cell (HND_threads A) (\<lambda>(tx, ty). ty * 2) (\<lambda>t. sm (s t)) (snd bufs)))"

definition HND_sync_merge :: "kernel_args \<Rightarrow> fmem \<times> fmem \<Rightarrow> nat \<Rightarrow> state_t" where
  "HND_sync_merge A bufs tx =
     foldl (\<lambda>s j. merge_mdo s (snd bufs (j * 2)) (fin_of (snd bufs (j * 2 + 1)))
                    (fvec_load (arg_vec_size A) (fst bufs)
                       (j * arg_head_dim A + tx * arg_vec_size A)))
       (init (arg_vec_size A)) [0 ..< arg_bdy A]"

definition HND_sync_state ::
  "kernel_args \<Rightarrow> (nat \<times> nat \<Rightarrow> state_t) \<Rightarrow> fmem \<times> fmem
     \<Rightarrow> (nat \<times> nat \<Rightarrow> state_t) \<times> (fmem \<times> fmem)" where
  "HND_sync_state A s bufs =
     (let bufs' = HND_sync_store A s bufs
      in (\<lambda>(tx, ty). HND_sync_merge A bufs' tx, bufs'))"

text \<open>
  The state of every thread of group \<open>(kv_chunk_idx, head_idx)\<close> after \<^verbatim>\<open>sync_state\<close> (line 296).
\<close>

definition HND_block_partial ::
  "kernel_args \<Rightarrow> nat \<Rightarrow> nat \<Rightarrow> (nat \<times> nat \<Rightarrow> state_t) \<times> (fmem \<times> fmem)" where
  "HND_block_partial A head_idx kv_chunk_idx =
     HND_sync_state A (r_s_partial (HND_chunk_state A head_idx kv_chunk_idx))
       (arg_smem_f A, arg_smem_md A)"

text \<open>
  The places of the scratch buffer (lines 299-302): the partial output of thread \<open>tx\<close>
  at \<^verbatim>\<open>tmp + (head_idx * num_kv_chunks + kv_chunk_idx) * head_dim + tx * vec_size\<close>, and
  the cells of \<open>m\<close> and \<open>d\<close> at \<^verbatim>\<open>tmp_md[(head_idx * num_kv_chunks + kv_chunk_idx) * 2]\<close> and
  the next one, with \<^verbatim>\<open>tmp_md = tmp + num_heads * num_kv_chunks * head_dim\<close>.
\<close>

definition HND_tmp_o :: "kernel_args \<Rightarrow> nat \<Rightarrow> nat \<Rightarrow> nat \<Rightarrow> nat" where
  "HND_tmp_o A head_idx kv_chunk_idx tx =
     (head_idx * arg_gridDim_x A + kv_chunk_idx) * arg_head_dim A + tx * arg_vec_size A"

definition HND_tmp_md :: "kernel_args \<Rightarrow> nat \<Rightarrow> nat \<Rightarrow> nat" where
  "HND_tmp_md A head_idx kv_chunk_idx =
     arg_gridDim_y A * arg_gridDim_x A * arg_head_dim A
       + (head_idx * arg_gridDim_x A + kv_chunk_idx) * 2"

text \<open>
  Every thread of every group of the grid.
\<close>

definition HND_grid :: "kernel_args \<Rightarrow> ((nat \<times> nat) \<times> (nat \<times> nat)) list" where
  "HND_grid A =
     List.product (List.product [0 ..< arg_gridDim_x A] [0 ..< arg_gridDim_y A]) (HND_threads A)"

text \<open>
  The scratch buffer at \<^verbatim>\<open>grid.sync()\<close>: every thread of every group has stored its
  partial state into the buffer \<open>tmp\<close> the caller gave.
\<close>

definition HND_tmp_partial :: "kernel_args \<Rightarrow> fmem \<Rightarrow> fmem" where
  "HND_tmp_partial A tmp =
     (let s_partial = (\<lambda>((bx, by), t). fst (HND_block_partial A by bx) t);
          tmp1 = block_store (HND_grid A) (\<lambda>((bx, by), (tx, ty)). HND_tmp_o A by bx tx)
                   (\<lambda>g. so (s_partial g)) tmp;
          tmp2 = block_store_cell (HND_grid A) (\<lambda>((bx, by), t). HND_tmp_md A by bx)
                   (\<lambda>g. sm (s_partial g)) tmp1;
          tmp3 = block_store_cell (HND_grid A) (\<lambda>((bx, by), t). HND_tmp_md A by bx + 1)
                   (\<lambda>g. Fin (sd (s_partial g))) tmp2
      in tmp3)"

text \<open>
  Lines 306-318, in a group with \<^verbatim>\<open>kv_chunk_idx == 0\<close>: thread \<open>(tx, ty)\<close> merges into a
  state that starts from \<^verbatim>\<open>init()\<close> the partial states of the chunks \<open>batch * bdy + ty\<close>
  below the number of chunks, read from the scratch buffer. Every group reads the
  buffer as the barrier left it; no barrier orders these loads and the stores
  \<^verbatim>\<open>tmp[head_idx]\<close> and \<^verbatim>\<open>tmp[num_heads + head_idx]\<close> that end the kernel in the other
  groups of chunk zero, which fall into the partial outputs at the start of the buffer;
  the order of the groups after the barrier is not modelled.
\<close>

definition HND_global_merge :: "kernel_args \<Rightarrow> fmem \<Rightarrow> nat \<Rightarrow> nat \<times> nat \<Rightarrow> state_t" where
  "HND_global_merge A tmp head_idx =
     (\<lambda>(tx, ty).
        foldl (\<lambda>s_global batch.
                 let kv_chunk_idx = batch * arg_bdy A + ty
                 in if kv_chunk_idx < arg_gridDim_x A
                    then merge s_global
                           \<lparr>so = fvec_load (arg_vec_size A) tmp
                                   (HND_tmp_o A head_idx kv_chunk_idx tx),
                            sm = tmp (HND_tmp_md A head_idx kv_chunk_idx),
                            sd = fin_of (tmp (HND_tmp_md A head_idx kv_chunk_idx + 1))\<rparr>
                    else s_global)
          (init (arg_vec_size A))
          [0 ..< (arg_gridDim_x A + arg_bdy A - 1) div arg_bdy A])"



section \<open>The NHD kernel\<close>

text \<open>
  \<^verbatim>\<open>num_heads = gridDim.y * bdy\<close>: a group of the NHD kernel holds \<open>bdy\<close> heads.
\<close>

definition NHD_num_heads :: "kernel_args \<Rightarrow> nat" where
  "NHD_num_heads A = arg_gridDim_y A * arg_bdy A"

text \<open>
  The threads \<open>(tx, ty, tz)\<close> of a group of the NHD kernel and the tile offsets of its
  stages. Thread \<open>(tx, ty, tz)\<close> works on head \<open>blockIdx.y * bdy + ty\<close> and on the row
  \<open>tz * bdy + ty\<close> of a tile.
\<close>

definition NHD_threads :: "kernel_args \<Rightarrow> (nat \<times> nat \<times> nat) list" where
  "NHD_threads A =
     List.product [0 ..< arg_bdx A] (List.product [0 ..< arg_bdy A] [0 ..< arg_bdz A])"

definition NHD_kv_shared_offset :: "kernel_args \<Rightarrow> nat list" where
  "NHD_kv_shared_offset A = kv_shared_offset_of (arg_bdz A * arg_bdy A * arg_head_dim A)"

text \<open>
  One load stage of the NHD kernel; the row of position \<open>kv_idx\<close> and head
  \<open>head_idx\<close> starts at \<^verbatim>\<open>(kv_idx * num_heads + head_idx) * head_dim\<close>.
\<close>

definition NHD_load_tile ::
  "kernel_args \<Rightarrow> nat \<Rightarrow> mem \<Rightarrow> nat \<Rightarrow> (nat \<times> nat \<times> nat \<Rightarrow> bool) \<Rightarrow> (nat \<times> nat \<times> nat \<Rightarrow> nat)
     \<Rightarrow> mem \<Rightarrow> mem" where
  "NHD_load_tile A blockIdx_y src_mem stage_idx pred_guard kv_idx smem =
     block_memcpy_async (NHD_threads A) pred_guard
       (\<lambda>(tx, ty, tz). NHD_kv_shared_offset A ! stage_idx
                         + (tz * arg_bdy A + ty) * arg_head_dim A + tx * arg_vec_size A)
       src_mem
       (\<lambda>(tx, ty, tz). (kv_idx (tx, ty, tz) * NHD_num_heads A
                          + (blockIdx_y * arg_bdy A + ty)) * arg_head_dim A
                         + tx * arg_vec_size A)
       (arg_vec_size A) smem"

text \<open>
  Lines 519-540, 542-588 and 589-610 of the NHD kernel, as for the HND kernel with the
  stride \<open>bdz\<close>.
\<close>

definition NHD_prologue :: "kernel_args \<Rightarrow> nat \<Rightarrow> nat \<Rightarrow> (nat \<times> nat \<times> nat) regs" where
  "NHD_prologue A blockIdx_y kv_chunk_idx =
     (let producer_pred_guard = (\<lambda>(tx, ty, tz). tz < chunk_size_of A kv_chunk_idx);
          kv_idx = (\<lambda>(tx, ty, tz). chunk_start_of A kv_chunk_idx + tz);
          smem1 = NHD_load_tile A blockIdx_y (arg_k A) 0 producer_pred_guard kv_idx (arg_smem A);
          smem2 = NHD_load_tile A blockIdx_y (arg_v A) 1 producer_pred_guard kv_idx smem1
      in \<lparr>r_smem = smem2, r_x = (\<lambda>t. 0), r_s_partial = (\<lambda>t. init (arg_vec_size A)),
          r_copy_stage_idx = 2, r_compute_stage_idx = 0\<rparr>)"

definition NHD_compute_stages ::
  "kernel_args \<Rightarrow> nat \<Rightarrow> (nat \<times> nat \<times> nat \<Rightarrow> nat) \<Rightarrow> (nat \<times> nat \<times> nat \<Rightarrow> bool) \<Rightarrow> mem \<Rightarrow> mem
     \<Rightarrow> (nat \<times> nat \<times> nat) regs \<Rightarrow> (nat \<times> nat \<times> nat) regs" where
  "NHD_compute_stages A blockIdx_y consumer_kv_idx consumer_pred_guard smem_qk smem_upd R =
     (let c0 = r_compute_stage_idx R;
          x1 = (\<lambda>(tx, ty, tz).
                  NHD_compute_qk (arg_float A) (arg_rotary_mode A) (arg_apply_rotary A) (arg_head_dim A)
                    (arg_vec_size A) (arg_bdx A) (arg_bdy A) smem_qk
                    (q_vec_of A (blockIdx_y * arg_bdy A + ty))
                    (rotary_emb_of A) (NHD_kv_shared_offset A) (consumer_kv_idx (tx, ty, tz)) c0
                    (arg_sm_scale A) ty tz ! tx);
          c1 = (c0 + 1) mod stages_count;
          s1 = (\<lambda>(tx, ty, tz).
                  NHD_update_partial_state (arg_head_dim A) (arg_vec_size A) (arg_bdy A) smem_upd
                    (x1 (tx, ty, tz)) (NHD_kv_shared_offset A) c1
                    (consumer_pred_guard (tx, ty, tz)) (r_s_partial R (tx, ty, tz)) tx ty tz);
          c2 = (c1 + 1) mod stages_count
      in R\<lparr>r_smem := smem_upd, r_x := x1, r_s_partial := s1, r_compute_stage_idx := c2\<rparr>)"

definition NHD_loop_body ::
  "kernel_args \<Rightarrow> nat \<Rightarrow> nat \<Rightarrow> nat \<Rightarrow> (nat \<times> nat \<times> nat) regs \<Rightarrow> (nat \<times> nat \<times> nat) regs" where
  "NHD_loop_body A blockIdx_y kv_chunk_idx batch R =
     (let producer_kv_idx =
            (\<lambda>(tx, ty, tz). chunk_start_of A kv_chunk_idx + batch * arg_bdz A + tz);
          consumer_kv_idx =
            (\<lambda>(tx, ty, tz). chunk_start_of A kv_chunk_idx + (batch - 1) * arg_bdz A + tz);
          producer_pred_guard = (\<lambda>t. producer_kv_idx t < chunk_end_of A kv_chunk_idx);
          consumer_pred_guard = (\<lambda>t. True);
          smem1 = NHD_load_tile A blockIdx_y (arg_k A) (r_copy_stage_idx R) producer_pred_guard
                    producer_kv_idx (r_smem R);
          copy1 = (r_copy_stage_idx R + 1) mod stages_count;
          smem2 = NHD_load_tile A blockIdx_y (arg_v A) copy1 producer_pred_guard
                    producer_kv_idx smem1;
          copy2 = (copy1 + 1) mod stages_count
      in NHD_compute_stages A blockIdx_y consumer_kv_idx consumer_pred_guard smem1 smem2
           (R\<lparr>r_copy_stage_idx := copy2\<rparr>))"

definition NHD_chunk_state :: "kernel_args \<Rightarrow> nat \<Rightarrow> nat \<Rightarrow> (nat \<times> nat \<times> nat) regs" where
  "NHD_chunk_state A blockIdx_y kv_chunk_idx =
     (let num_batches = (chunk_size_of A kv_chunk_idx + arg_bdz A - 1) div arg_bdz A;
          R = foldl (\<lambda>R batch. NHD_loop_body A blockIdx_y kv_chunk_idx batch R)
                (NHD_prologue A blockIdx_y kv_chunk_idx) [1 ..< num_batches];
          batch = (if 1 < num_batches then num_batches else 1);
          consumer_kv_idx =
            (\<lambda>(tx, ty, tz). chunk_start_of A kv_chunk_idx + (batch - 1) * arg_bdz A + tz);
          consumer_pred_guard = (\<lambda>t. consumer_kv_idx t < chunk_end_of A kv_chunk_idx)
      in NHD_compute_stages A blockIdx_y consumer_kv_idx consumer_pred_guard (r_smem R)
           (r_smem R) R)"

text \<open>
  \<^verbatim>\<open>NHD::sync_state\<close> (lines 426-443): the \<open>bdz\<close> states of the lane and head of the thread are merged.
\<close>

definition NHD_sync_store ::
  "kernel_args \<Rightarrow> (nat \<times> nat \<times> nat \<Rightarrow> state_t) \<Rightarrow> fmem \<times> fmem \<Rightarrow> fmem \<times> fmem" where
  "NHD_sync_store A s bufs =
     (block_store (NHD_threads A)
        (\<lambda>(tx, ty, tz). (tz * arg_bdy A + ty) * arg_head_dim A + tx * arg_vec_size A)
        (\<lambda>t. so (s t)) (fst bufs),
      block_store_cell (NHD_threads A) (\<lambda>(tx, ty, tz). (tz * arg_bdy A + ty) * 2 + 1)
        (\<lambda>t. Fin (sd (s t)))
        (block_store_cell (NHD_threads A) (\<lambda>(tx, ty, tz). (tz * arg_bdy A + ty) * 2)
           (\<lambda>t. sm (s t)) (snd bufs)))"

definition NHD_sync_merge :: "kernel_args \<Rightarrow> fmem \<times> fmem \<Rightarrow> nat \<Rightarrow> nat \<Rightarrow> state_t" where
  "NHD_sync_merge A bufs tx ty =
     foldl (\<lambda>s j. merge_mdo s (snd bufs ((j * arg_bdy A + ty) * 2))
                    (fin_of (snd bufs ((j * arg_bdy A + ty) * 2 + 1)))
                    (fvec_load (arg_vec_size A) (fst bufs)
                       ((j * arg_bdy A + ty) * arg_head_dim A + tx * arg_vec_size A)))
       (init (arg_vec_size A)) [0 ..< arg_bdz A]"

definition NHD_sync_state ::
  "kernel_args \<Rightarrow> (nat \<times> nat \<times> nat \<Rightarrow> state_t) \<Rightarrow> fmem \<times> fmem
     \<Rightarrow> (nat \<times> nat \<times> nat \<Rightarrow> state_t) \<times> (fmem \<times> fmem)" where
  "NHD_sync_state A s bufs =
     (let bufs' = NHD_sync_store A s bufs
      in (\<lambda>(tx, ty, tz). NHD_sync_merge A bufs' tx ty, bufs'))"

text \<open>
  The state of every thread of group \<open>(kv_chunk_idx, blockIdx_y)\<close> after \<^verbatim>\<open>sync_state\<close> (line 613).
\<close>

definition NHD_block_partial ::
  "kernel_args \<Rightarrow> nat \<Rightarrow> nat \<Rightarrow> (nat \<times> nat \<times> nat \<Rightarrow> state_t) \<times> (fmem \<times> fmem)" where
  "NHD_block_partial A blockIdx_y kv_chunk_idx =
     NHD_sync_state A (r_s_partial (NHD_chunk_state A blockIdx_y kv_chunk_idx))
       (arg_smem_f A, arg_smem_md A)"

text \<open>
  The places of the scratch buffer (lines 617-620): \<^verbatim>\<open>(kv_chunk_idx * num_heads + head_idx)\<close>
  indexes the pair, and \<^verbatim>\<open>tmp_md = tmp + num_kv_chunks * num_heads * head_dim\<close>.
\<close>

definition NHD_tmp_o :: "kernel_args \<Rightarrow> nat \<Rightarrow> nat \<Rightarrow> nat \<Rightarrow> nat" where
  "NHD_tmp_o A head_idx kv_chunk_idx tx =
     (kv_chunk_idx * NHD_num_heads A + head_idx) * arg_head_dim A + tx * arg_vec_size A"

definition NHD_tmp_md :: "kernel_args \<Rightarrow> nat \<Rightarrow> nat \<Rightarrow> nat" where
  "NHD_tmp_md A head_idx kv_chunk_idx =
     arg_gridDim_x A * NHD_num_heads A * arg_head_dim A
       + (kv_chunk_idx * NHD_num_heads A + head_idx) * 2"

definition NHD_grid :: "kernel_args \<Rightarrow> ((nat \<times> nat) \<times> (nat \<times> nat \<times> nat)) list" where
  "NHD_grid A =
     List.product (List.product [0 ..< arg_gridDim_x A] [0 ..< arg_gridDim_y A]) (NHD_threads A)"

text \<open>
  The scratch buffer at \<^verbatim>\<open>grid.sync()\<close>.
\<close>

definition NHD_tmp_partial :: "kernel_args \<Rightarrow> fmem \<Rightarrow> fmem" where
  "NHD_tmp_partial A tmp =
     (let s_partial = (\<lambda>((bx, by), t). fst (NHD_block_partial A by bx) t);
          tmp1 = block_store (NHD_grid A)
                   (\<lambda>((bx, by), (tx, ty, tz)). NHD_tmp_o A (by * arg_bdy A + ty) bx tx)
                   (\<lambda>g. so (s_partial g)) tmp;
          tmp2 = block_store_cell (NHD_grid A)
                   (\<lambda>((bx, by), (tx, ty, tz)). NHD_tmp_md A (by * arg_bdy A + ty) bx)
                   (\<lambda>g. sm (s_partial g)) tmp1;
          tmp3 = block_store_cell (NHD_grid A)
                   (\<lambda>((bx, by), (tx, ty, tz)). NHD_tmp_md A (by * arg_bdy A + ty) bx + 1)
                   (\<lambda>g. Fin (sd (s_partial g))) tmp2
      in tmp3)"

text \<open>
  Lines 624-635; the scratch buffer is read as the barrier left it, as for the HND kernel.
\<close>

definition NHD_global_merge ::
  "kernel_args \<Rightarrow> fmem \<Rightarrow> nat \<Rightarrow> nat \<times> nat \<times> nat \<Rightarrow> state_t" where
  "NHD_global_merge A tmp blockIdx_y =
     (\<lambda>(tx, ty, tz).
        foldl (\<lambda>s_global batch.
                 let kv_chunk_idx = batch * arg_bdz A + tz;
                     head_idx = blockIdx_y * arg_bdy A + ty
                 in if kv_chunk_idx < arg_gridDim_x A
                    then merge s_global
                           \<lparr>so = fvec_load (arg_vec_size A) tmp
                                   (NHD_tmp_o A head_idx kv_chunk_idx tx),
                            sm = tmp (NHD_tmp_md A head_idx kv_chunk_idx),
                            sd = fin_of (tmp (NHD_tmp_md A head_idx kv_chunk_idx + 1))\<rparr>
                    else s_global)
          (init (arg_vec_size A))
          [0 ..< (arg_gridDim_x A + arg_bdz A - 1) div arg_bdz A])"



section \<open>The sequential fold and the invariant of the chunk loop\<close>

text \<open>
  The \<open>n\<close> elements at \<open>a\<close> of one memory are those at \<open>b\<close> of another.
\<close>

definition row_eq :: "nat \<Rightarrow> mem \<Rightarrow> nat \<Rightarrow> mem \<Rightarrow> nat \<Rightarrow> bool" where
  "row_eq n m1 a m2 b \<longleftrightarrow> (\<forall>i<n. m1 (a + i) = m2 (b + i))"

text \<open>
  What the kernels assert of their template arguments: \<^verbatim>\<open>static_assert(bdx * vec_size == head_dim)\<close>;
  the block sizes are positive.
\<close>

definition HND_wf :: "kernel_args \<Rightarrow> bool" where
  "HND_wf A \<longleftrightarrow> arg_bdx A * arg_vec_size A = arg_head_dim A \<and> 0 < arg_bdy A"

definition NHD_wf :: "kernel_args \<Rightarrow> bool" where
  "NHD_wf A \<longleftrightarrow> arg_bdx A * arg_vec_size A = arg_head_dim A \<and> 0 < arg_bdy A \<and> 0 < arg_bdz A"

text \<open>
  The fold of one position, on the arrays of the caller instead of the staged tiles:
  the score stage on the row of position \<open>p\<close> of \<^verbatim>\<open>k\<close>, the value slice of the row of
  \<^verbatim>\<open>v\<close>, and the fold of the two into a state. \<open>HND_fold\<close> folds a list of positions in
  order, from \<^verbatim>\<open>init()\<close>.
\<close>

definition HND_score :: "kernel_args \<Rightarrow> nat \<Rightarrow> nat \<Rightarrow> real list" where
  "HND_score A head_idx p =
     HND_compute_qk (arg_float A) (arg_rotary_mode A) (arg_apply_rotary A) (arg_head_dim A) (arg_vec_size A)
       (arg_bdx A) (arg_k A) (q_vec_of A head_idx) (rotary_emb_of A)
       [(head_idx * arg_seq_len A + p) * arg_head_dim A] p 0 (arg_sm_scale A) 0"

definition HND_value :: "kernel_args \<Rightarrow> nat \<Rightarrow> nat \<Rightarrow> nat \<Rightarrow> real list" where
  "HND_value A head_idx p tx =
     vec_load (arg_vec_size A) (arg_v A)
       ((head_idx * arg_seq_len A + p) * arg_head_dim A + tx * arg_vec_size A)"

definition HND_fold_in :: "kernel_args \<Rightarrow> nat \<Rightarrow> nat \<Rightarrow> state_t \<Rightarrow> nat \<Rightarrow> state_t" where
  "HND_fold_in A head_idx tx s p =
     merge_xv s (HND_score A head_idx p ! tx) (HND_value A head_idx p tx)"

definition HND_fold :: "kernel_args \<Rightarrow> nat \<Rightarrow> nat \<Rightarrow> nat list \<Rightarrow> state_t" where
  "HND_fold A head_idx tx ps = foldl (HND_fold_in A head_idx tx) (init (arg_vec_size A)) ps"

text \<open>
  The invariant of the chunk loop after \<open>j\<close> batches: the stage indices, the rows of
  batch \<open>j\<close> staged in the slots \<^verbatim>\<open>compute_stage_idx\<close> and the next one, and the state of
  every thread, the fold of its positions of the batches below \<open>j\<close>.
\<close>

definition HND_inv :: "kernel_args \<Rightarrow> nat \<Rightarrow> nat \<Rightarrow> nat \<Rightarrow> (nat \<times> nat) regs \<Rightarrow> bool" where
  "HND_inv A head_idx kv_chunk_idx j R \<longleftrightarrow>
     r_compute_stage_idx R \<in> {0, 2}
     \<and> r_copy_stage_idx R = (r_compute_stage_idx R + 2) mod 4
     \<and> (\<forall>ty<arg_bdy A.
          chunk_start_of A kv_chunk_idx + j * arg_bdy A + ty < chunk_end_of A kv_chunk_idx \<longrightarrow>
          row_eq (arg_head_dim A) (r_smem R)
            (HND_kv_shared_offset A ! r_compute_stage_idx R + ty * arg_head_dim A) (arg_k A)
            ((head_idx * arg_seq_len A
                + (chunk_start_of A kv_chunk_idx + j * arg_bdy A + ty)) * arg_head_dim A)
          \<and> row_eq (arg_head_dim A) (r_smem R)
            (HND_kv_shared_offset A ! (r_compute_stage_idx R + 1) + ty * arg_head_dim A)
            (arg_v A)
            ((head_idx * arg_seq_len A
                + (chunk_start_of A kv_chunk_idx + j * arg_bdy A + ty)) * arg_head_dim A))
     \<and> (\<forall>tx<arg_bdx A. \<forall>ty<arg_bdy A.
          r_s_partial R (tx, ty)
            = HND_fold A head_idx tx
                (map (\<lambda>b. chunk_start_of A kv_chunk_idx + b * arg_bdy A + ty) [0 ..< j]))"

text \<open>
  The same for the NHD layout.
\<close>

definition NHD_score :: "kernel_args \<Rightarrow> nat \<Rightarrow> nat \<Rightarrow> real list" where
  "NHD_score A head_idx p =
     NHD_compute_qk (arg_float A) (arg_rotary_mode A) (arg_apply_rotary A) (arg_head_dim A) (arg_vec_size A)
       (arg_bdx A) (arg_bdy A) (arg_k A) (q_vec_of A head_idx) (rotary_emb_of A)
       [(p * NHD_num_heads A + head_idx) * arg_head_dim A] p 0 (arg_sm_scale A) 0 0"

definition NHD_value :: "kernel_args \<Rightarrow> nat \<Rightarrow> nat \<Rightarrow> nat \<Rightarrow> real list" where
  "NHD_value A head_idx p tx =
     vec_load (arg_vec_size A) (arg_v A)
       ((p * NHD_num_heads A + head_idx) * arg_head_dim A + tx * arg_vec_size A)"

definition NHD_fold_in :: "kernel_args \<Rightarrow> nat \<Rightarrow> nat \<Rightarrow> state_t \<Rightarrow> nat \<Rightarrow> state_t" where
  "NHD_fold_in A head_idx tx s p =
     merge_xv s (NHD_score A head_idx p ! tx) (NHD_value A head_idx p tx)"

definition NHD_fold :: "kernel_args \<Rightarrow> nat \<Rightarrow> nat \<Rightarrow> nat list \<Rightarrow> state_t" where
  "NHD_fold A head_idx tx ps = foldl (NHD_fold_in A head_idx tx) (init (arg_vec_size A)) ps"

definition NHD_inv ::
  "kernel_args \<Rightarrow> nat \<Rightarrow> nat \<Rightarrow> nat \<Rightarrow> (nat \<times> nat \<times> nat) regs \<Rightarrow> bool" where
  "NHD_inv A blockIdx_y kv_chunk_idx j R \<longleftrightarrow>
     r_compute_stage_idx R \<in> {0, 2}
     \<and> r_copy_stage_idx R = (r_compute_stage_idx R + 2) mod 4
     \<and> (\<forall>ty<arg_bdy A. \<forall>tz<arg_bdz A.
          chunk_start_of A kv_chunk_idx + j * arg_bdz A + tz < chunk_end_of A kv_chunk_idx \<longrightarrow>
          row_eq (arg_head_dim A) (r_smem R)
            (NHD_kv_shared_offset A ! r_compute_stage_idx R
               + (tz * arg_bdy A + ty) * arg_head_dim A) (arg_k A)
            (((chunk_start_of A kv_chunk_idx + j * arg_bdz A + tz) * NHD_num_heads A
                + (blockIdx_y * arg_bdy A + ty)) * arg_head_dim A)
          \<and> row_eq (arg_head_dim A) (r_smem R)
            (NHD_kv_shared_offset A ! (r_compute_stage_idx R + 1)
               + (tz * arg_bdy A + ty) * arg_head_dim A)
            (arg_v A)
            (((chunk_start_of A kv_chunk_idx + j * arg_bdz A + tz) * NHD_num_heads A
                + (blockIdx_y * arg_bdy A + ty)) * arg_head_dim A))
     \<and> (\<forall>tx<arg_bdx A. \<forall>ty<arg_bdy A. \<forall>tz<arg_bdz A.
          r_s_partial R (tx, ty, tz)
            = NHD_fold A (blockIdx_y * arg_bdy A + ty) tx
                (map (\<lambda>b. chunk_start_of A kv_chunk_idx + b * arg_bdz A + tz) [0 ..< j]))"

text \<open>
  The positions of a chunk that a lane folds: \<open>start + b * stride + lane\<close> for the
  batches \<open>b\<close>, as long as they are in the chunk.
\<close>

definition lane_positions :: "nat \<Rightarrow> nat \<Rightarrow> nat \<Rightarrow> nat \<Rightarrow> nat list" where
  "lane_positions start cs stride lane =
     filter (\<lambda>p. p < start + cs)
       (map (\<lambda>b. start + b * stride + lane) [0 ..< (cs + stride - 1) div stride])"

text \<open>
  The merge of a list of states from \<^verbatim>\<open>init()\<close>, the state of one score and value, and the
  sequential fold of the positions \<open>ps\<close> with scores \<open>x p\<close> and values \<open>v p\<close>.
\<close>

definition merge_all :: "nat \<Rightarrow> state_t list \<Rightarrow> state_t" where
  "merge_all n ts = foldl merge (init n) ts"

definition single :: "real \<Rightarrow> real list \<Rightarrow> state_t" where
  "single x v = \<lparr>so = v, sm = Fin x, sd = 1\<rparr>"

definition seq_fold :: "nat \<Rightarrow> (nat \<Rightarrow> real) \<Rightarrow> (nat \<Rightarrow> real list) \<Rightarrow> nat list \<Rightarrow> state_t" where
  "seq_fold n x v ps = foldl (\<lambda>s p. merge_xv s (x p) (v p)) (init n) ps"

text \<open>
  The threads of a lane hold vectors of \<open>vec_size\<close> elements and agree on \<open>m\<close> and \<open>d\<close>
  (thread 0 of the lane is the one whose \<open>m\<close> and \<open>d\<close> are read back).
\<close>

definition lane_uniform :: "kernel_args \<Rightarrow> (nat \<times> nat \<Rightarrow> state_t) \<Rightarrow> bool" where
  "lane_uniform A s \<longleftrightarrow>
     (\<forall>tx<arg_bdx A. \<forall>ty<arg_bdy A.
        length (so (s (tx, ty))) = arg_vec_size A
        \<and> sm (s (tx, ty)) = sm (s (0, ty)) \<and> sd (s (tx, ty)) = sd (s (0, ty)))"

definition NHD_lane_uniform :: "kernel_args \<Rightarrow> (nat \<times> nat \<times> nat \<Rightarrow> state_t) \<Rightarrow> bool" where
  "NHD_lane_uniform A s \<longleftrightarrow>
     (\<forall>tx<arg_bdx A. \<forall>ty<arg_bdy A. \<forall>tz<arg_bdz A.
        length (so (s (tx, ty, tz))) = arg_vec_size A
        \<and> sm (s (tx, ty, tz)) = sm (s (0, ty, tz)) \<and> sd (s (tx, ty, tz)) = sd (s (0, ty, tz)))"

text \<open>
  The sequential fold of the positions of one chunk.
\<close>

definition HND_chunk_fold :: "kernel_args \<Rightarrow> nat \<Rightarrow> nat \<Rightarrow> nat \<Rightarrow> state_t" where
  "HND_chunk_fold A head_idx kv_chunk_idx tx =
     HND_fold A head_idx tx [chunk_start_of A kv_chunk_idx ..< chunk_end_of A kv_chunk_idx]"

definition NHD_chunk_fold :: "kernel_args \<Rightarrow> nat \<Rightarrow> nat \<Rightarrow> nat \<Rightarrow> state_t" where
  "NHD_chunk_fold A head_idx kv_chunk_idx tx =
     NHD_fold A head_idx tx [chunk_start_of A kv_chunk_idx ..< chunk_end_of A kv_chunk_idx]"



text \<open>
  The partition of the sequence into chunks that the launcher sets up: a positive chunk
  size and \<^verbatim>\<open>nblks.x = (seq_len + kv_chunk_size - 1) / kv_chunk_size\<close> groups per head; the
  last chunk is ragged when the chunk size does not divide the sequence length.
\<close>

definition chunked :: "kernel_args \<Rightarrow> bool" where
  "chunked A \<longleftrightarrow>
     0 < arg_kv_chunk_size A \<and> arg_seq_len A < 2 ^ 64
     \<and> arg_gridDim_x A = (arg_seq_len A + arg_kv_chunk_size A - 1) div arg_kv_chunk_size A"


text \<open>
  Modelled from the spec: the size of the scratch buffer the caller allocates,
  \<^verbatim>\<open>heads * chunks * head_dim + 2 * heads * chunks\<close> floats (section 3).
\<close>

definition tmp_size :: "nat \<Rightarrow> nat \<Rightarrow> nat \<Rightarrow> nat" where
  "tmp_size num_heads num_kv_chunks head_dim =
     num_heads * num_kv_chunks * head_dim + 2 * num_heads * num_kv_chunks"

text \<open>
  The vector of lane \<open>tx\<close> of the row at \<open>row\<close> of an array, as claim C9 has it: rotated
  at the position \<open>pos\<close> when the rotary mode is on, the raw slice of the lane otherwise.
  \<open>tile_scores\<close> is the score of a tile from the query and key vectors of its lanes.
\<close>

definition rotated :: "kernel_args \<Rightarrow> mem \<Rightarrow> nat \<Rightarrow> nat \<Rightarrow> nat \<Rightarrow> real list" where
  "rotated A src row pos tx =
     (if arg_rotary_mode A = kApplyRotary
      then arg_apply_rotary A (vec_load (arg_head_dim A) src row) (rotary_emb_of A tx) pos tx
      else vec_load (arg_vec_size A) src (row + tx * arg_vec_size A))"

definition tile_scores :: "kernel_args \<Rightarrow> (nat \<Rightarrow> real list) \<Rightarrow> (nat \<Rightarrow> real list) \<Rightarrow> real list" where
  "tile_scores A q k =
     shfl (tile_reduce (arg_float A) (arg_bdx A div 2)
             (map (\<lambda>t. qk_local (arg_float A) (arg_vec_size A) (q t) (k t) (arg_sm_scale A))
                [0 ..< arg_bdx A])) 0"

text \<open>
  A launch for the examples: one group row, three chunks of a sequence of five
  positions (the last chunk holds one), two lanes of one feature, query and keys zero
  (every score is 0) and the value at address \<open>a\<close> equal to \<open>a\<close>.
\<close>

definition example_args :: kernel_args where
  "example_args =
     \<lparr>arg_float = exact_ops, arg_rotary_mode = kNone, arg_apply_rotary = (\<lambda>row emb pos tx. row),
      arg_head_dim = 2, arg_vec_size = 1, arg_bdx = 2, arg_bdy = 2, arg_bdz = 2,
      arg_q = (\<lambda>a. 0), arg_k = (\<lambda>a. 0), arg_v = (\<lambda>a. real a),
      arg_sm_scale = 1, arg_seq_len = 5, arg_rope_inv_scale = 1, arg_rope_inv_theta = 1,
      arg_kv_chunk_size = 2, arg_gridDim_x = 3, arg_gridDim_y = 1,
      arg_smem = (\<lambda>a. 0), arg_smem_f = (\<lambda>a. NegInf), arg_smem_md = (\<lambda>a. NegInf)\<rparr>"

definition example_tmp :: fmem where
  "example_tmp = (\<lambda>a. NegInf)"

text \<open>
  Another content of the scratch buffer before the launch.
\<close>

definition example_tmp_other :: fmem where
  "example_tmp_other = (\<lambda>a. Fin 7)"

text \<open>
  A launch with the rotary mode on, two lanes of two features.
\<close>

definition example_rotary_args :: kernel_args where
  "example_rotary_args =
     \<lparr>arg_float = exact_ops, arg_rotary_mode = kApplyRotary, arg_apply_rotary = example_rotary,
      arg_head_dim = 4, arg_vec_size = 2, arg_bdx = 2, arg_bdy = 2, arg_bdz = 2,
      arg_q = real, arg_k = real, arg_v = real,
      arg_sm_scale = 1, arg_seq_len = 5, arg_rope_inv_scale = 1, arg_rope_inv_theta = 1,
      arg_kv_chunk_size = 2, arg_gridDim_x = 3, arg_gridDim_y = 1,
      arg_smem = (\<lambda>a. 0), arg_smem_f = (\<lambda>a. NegInf), arg_smem_md = (\<lambda>a. NegInf)\<rparr>"

section \<open>The kernels fold every chunk and merge the folds\<close>

text \<open>
  The staged rows are the rows of the arrays (the copies of a group do not overlap);
  the chunk loop keeps its invariant; \<^verbatim>\<open>sync_state\<close> merges the states of a lane; the
  scratch buffer holds at the barrier what each group stored; the merge of folds of
  parts of the sequence is the fold of the sequence.
\<close>

lemma bma_frame:
  assumes "\<forall>t\<in>set threads. guard t \<longrightarrow> \<not> (dst t \<le> a \<and> a < dst t + n)"
  shows "block_memcpy_async threads guard dst src_mem src n smem a = smem a"
  using assms unfolding block_memcpy_async_def
  by (induction threads rule: rev_induct) (auto simp: memcpy_async_def)

lemma bma_hit:
  assumes "t \<in> set threads" and "guard t" and "dst t \<le> a" and "a < dst t + n"
    and "\<forall>t'\<in>set threads. guard t' \<longrightarrow> dst t' \<le> a \<longrightarrow> a < dst t' + n
           \<longrightarrow> src t' + (a - dst t') = src t + (a - dst t)"
  shows "block_memcpy_async threads guard dst src_mem src n smem a
           = src_mem (src t + (a - dst t))"
  using assms unfolding block_memcpy_async_def
proof (induction threads rule: rev_induct)
  case Nil
  then show ?case by simp
next
  case (snoc u us)
  show ?case
  proof (cases "guard u \<and> dst u \<le> a \<and> a < dst u + n")
    case True
    then have "src u + (a - dst u) = src t + (a - dst t)"
      using snoc.prems(5) by simp
    then show ?thesis using True by (simp add: memcpy_async_def)
  next
    case False
    then have "t \<noteq> u" using snoc.prems(2,3,4) by auto
    then have "t \<in> set us" using snoc.prems(1) by simp
    moreover have "\<forall>t'\<in>set us. guard t' \<longrightarrow> dst t' \<le> a \<longrightarrow> a < dst t' + n
           \<longrightarrow> src t' + (a - dst t') = src t + (a - dst t)"
      using snoc.prems(5) by simp
    ultimately have "foldl (\<lambda>sm t. if guard t then memcpy_async sm (dst t) src_mem (src t) n
        else sm) smem us a = src_mem (src t + (a - dst t))"
      using snoc.IH snoc.prems(2,3,4) by blast
    then show ?thesis using False by (auto simp: memcpy_async_def)
  qed
qed

lemma pack_inj:
  fixes a b r r' D :: nat
  assumes "r < D" and "r' < D" and "a * D + r = b * D + r'"
  shows "a = b \<and> r = r'"
proof -
  have "(a * D + r) div D = a" "(b * D + r') div D = b"
    using assms(1,2) by simp_all
  then have "a = b" using assms(3) by simp
  then show ?thesis using assms(3) by simp
qed

lemma kv_shared_offset_nth:
  "s < 4 \<Longrightarrow> kv_shared_offset_of tile ! s = s * tile"
  by (auto simp: kv_shared_offset_of_def less_Suc_eq numeral_eq_Suc)

lemma HND_threads_mem:
  "(tx, ty) \<in> set (HND_threads A) \<longleftrightarrow> tx < arg_bdx A \<and> ty < arg_bdy A"
  by (auto simp: HND_threads_def)

lemma col_split:
  fixes i v bdx :: nat
  assumes "i < bdx * v"
  shows "i div v < bdx" and "i = (i div v) * v + i mod v" and "i mod v < v"
proof -
  have v: "0 < v" using assms by (cases v) simp_all
  show "i div v < bdx" using assms v by (simp add: less_mult_imp_div_less mult.commute)
  show "i = (i div v) * v + i mod v" by simp
  show "i mod v < v" using v by simp
qed

lemma HND_load_tile_row:
  assumes wf: "HND_wf A" and s: "s < 4" and ty: "ty < arg_bdy A"
    and g: "\<forall>tx<arg_bdx A. pred_guard (tx, ty) \<and> kv_idx (tx, ty) = p"
  shows "row_eq (arg_head_dim A) (HND_load_tile A head_idx src_mem s pred_guard kv_idx smem)
           (HND_kv_shared_offset A ! s + ty * arg_head_dim A)
           src_mem ((head_idx * arg_seq_len A + p) * arg_head_dim A)"
  unfolding row_eq_def
proof (intro allI impI)
  fix i assume i: "i < arg_head_dim A"
  let ?v = "arg_vec_size A" and ?D = "arg_head_dim A"
  let ?off = "HND_kv_shared_offset A ! s"
  let ?dst = "\<lambda>(tx, ty). ?off + ty * ?D + tx * ?v"
  let ?src = "\<lambda>(tx, ty). (head_idx * arg_seq_len A + kv_idx (tx, ty)) * ?D + tx * ?v"
  have D: "arg_bdx A * ?v = ?D" using wf by (simp add: HND_wf_def)
  define tx where "tx = i div ?v"
  define rm where "rm = i mod ?v"
  have c: "tx < arg_bdx A" "i = tx * ?v + rm" "rm < ?v"
    using col_split [of i "arg_bdx A" ?v, unfolded D, OF i] by (simp_all add: tx_def rm_def)
  let ?a = "?off + ty * ?D + i"
  have mem: "(tx, ty) \<in> set (HND_threads A)" using c(1) ty by (simp add: HND_threads_mem)
  have gd: "pred_guard (tx, ty)" and kv: "kv_idx (tx, ty) = p" using g c(1) by simp_all
  have lo: "?dst (tx, ty) \<le> ?a" and hi: "?a < ?dst (tx, ty) + ?v"
    and df: "?a - ?dst (tx, ty) = rm"
    using c(3) by (simp_all add: c(2))
  have uniq: "\<forall>t'\<in>set (HND_threads A). pred_guard t' \<longrightarrow> ?dst t' \<le> ?a \<longrightarrow> ?a < ?dst t' + ?v
           \<longrightarrow> ?src t' + (?a - ?dst t') = ?src (tx, ty) + (?a - ?dst (tx, ty))"
  proof (intro ballI impI)
    fix t' assume t': "t' \<in> set (HND_threads A)" and lo': "?dst t' \<le> ?a"
      and hi': "?a < ?dst t' + ?v"
    obtain tx' ty' where t'_eq: "t' = (tx', ty')" by (cases t')
    have b: "tx' < arg_bdx A" "ty' < arg_bdy A" using t' t'_eq by (simp_all add: HND_threads_mem)
    define r where "r = ?a - ?dst t'"
    have r: "r < ?v" "?a = ?off + ty' * ?D + tx' * ?v + r"
      using lo' hi' by (simp_all add: r_def t'_eq)
    have "tx' * ?v + r < ?D"
    proof -
      have "tx' * ?v + r < tx' * ?v + ?v" using r(1) by simp
      also have "\<dots> = (tx' + 1) * ?v" by simp
      also have "\<dots> \<le> arg_bdx A * ?v" using b(1) by (intro mult_le_mono1) simp
      finally show ?thesis using D by simp
    qed
    moreover have "ty * ?D + i = ty' * ?D + (tx' * ?v + r)" using r(2) by simp
    ultimately have e: "ty = ty'" "i = tx' * ?v + r"
      using pack_inj [of i ?D "tx' * ?v + r" ty ty'] i by simp_all
    have "tx' * ?v + r = tx * ?v + rm" using e(2) c(2) by simp
    then have "tx' = tx" "r = rm"
      using pack_inj [of r ?v rm tx' tx] r(1) c(3) by simp_all
    then show "?src t' + (?a - ?dst t') = ?src (tx, ty) + (?a - ?dst (tx, ty))"
      using e(1) by (simp add: t'_eq)
  qed
  have "HND_load_tile A head_idx src_mem s pred_guard kv_idx smem ?a
          = src_mem (?src (tx, ty) + (?a - ?dst (tx, ty)))"
    unfolding HND_load_tile_def
    by (rule bma_hit [OF mem gd lo hi uniq])
  also have "?src (tx, ty) + (?a - ?dst (tx, ty))
               = (head_idx * arg_seq_len A + p) * ?D + i"
    unfolding df using kv c(2) by simp
  finally show "HND_load_tile A head_idx src_mem s pred_guard kv_idx smem ?a
          = src_mem ((head_idx * arg_seq_len A + p) * ?D + i)" .
qed

lemma vec_load_row_eq:
  assumes "row_eq D m1 a m2 b" and "c + n \<le> D"
  shows "vec_load n m1 (a + c) = vec_load n m2 (b + c)"
proof -
  have "m1 (a + c + j) = m2 (b + c + j)" if "j < n" for j
    using assms that by (simp add: row_eq_def add.assoc)
  then show ?thesis
    unfolding vec_load_def by (intro nth_equalityI) simp_all
qed

lemma lane_in_row:
  fixes tx bdx v :: nat
  assumes "tx < bdx"
  shows "tx * v + v \<le> bdx * v"
proof -
  have "tx * v + v = (tx + 1) * v" by simp
  also have "\<dots> \<le> bdx * v" using assms by (intro mult_le_mono1) simp
  finally show ?thesis .
qed

lemma HND_k_vec_row:
  assumes "arg_bdx A * arg_vec_size A = arg_head_dim A" and "tx < arg_bdx A"
    and "row_eq (arg_head_dim A) smem (offs ! ci + ty * arg_head_dim A) g b"
  shows "HND_k_vec mode rot (arg_head_dim A) (arg_vec_size A) smem emb offs kv ci tx ty
       = HND_k_vec mode rot (arg_head_dim A) (arg_vec_size A) g emb [b] kv 0 tx 0"
proof -
  have 1: "vec_load (arg_head_dim A) smem (offs ! ci + ty * arg_head_dim A)
         = vec_load (arg_head_dim A) g b"
    using vec_load_row_eq [OF assms(3), of 0 "arg_head_dim A"] by simp
  have "tx * arg_vec_size A + arg_vec_size A \<le> arg_head_dim A"
    using lane_in_row [OF assms(2), of "arg_vec_size A"] assms(1) by simp
  then have 2: "vec_load (arg_vec_size A) smem
           (offs ! ci + ty * arg_head_dim A + tx * arg_vec_size A)
         = vec_load (arg_vec_size A) g (b + tx * arg_vec_size A)"
    by (rule vec_load_row_eq [OF assms(3)])
  show ?thesis by (simp add: HND_k_vec_def 1 2)
qed

lemma HND_compute_qk_row:
  assumes "arg_bdx A * arg_vec_size A = arg_head_dim A"
    and "row_eq (arg_head_dim A) smem (offs ! ci + ty * arg_head_dim A) g b"
  shows "HND_compute_qk fo mode rot (arg_head_dim A) (arg_vec_size A) (arg_bdx A) smem qv emb
           offs kv ci sc ty
       = HND_compute_qk fo mode rot (arg_head_dim A) (arg_vec_size A) (arg_bdx A) g qv emb
           [b] kv 0 sc 0"
proof -
  have eq: "map (\<lambda>tx. qk_local fo (arg_vec_size A) (qv tx)
              (HND_k_vec mode rot (arg_head_dim A) (arg_vec_size A) smem emb offs kv ci tx ty) sc)
          [0 ..< arg_bdx A]
      = map (\<lambda>tx. qk_local fo (arg_vec_size A) (qv tx)
              (HND_k_vec mode rot (arg_head_dim A) (arg_vec_size A) g emb [b] kv 0 tx 0) sc)
          [0 ..< arg_bdx A]"
    by (intro map_cong refl) (simp add: HND_k_vec_row [OF assms(1) _ assms(2)])
  show ?thesis unfolding HND_compute_qk_def Let_def by (simp only: eq)
qed

lemma HND_update_partial_state_row:
  assumes "arg_bdx A * arg_vec_size A = arg_head_dim A" and "tx < arg_bdx A"
    and "row_eq (arg_head_dim A) smem (offs ! ci + ty * arg_head_dim A) g b"
  shows "HND_update_partial_state (arg_head_dim A) (arg_vec_size A) smem x offs ci pg s tx ty
       = (if pg then merge_xv s x (vec_load (arg_vec_size A) g (b + tx * arg_vec_size A))
          else s)"
proof -
  have "tx * arg_vec_size A + arg_vec_size A \<le> arg_head_dim A"
    using lane_in_row [OF assms(2), of "arg_vec_size A"] assms(1) by simp
  then have "vec_load (arg_vec_size A) smem
           (offs ! ci + ty * arg_head_dim A + tx * arg_vec_size A)
         = vec_load (arg_vec_size A) g (b + tx * arg_vec_size A)"
    by (rule vec_load_row_eq [OF assms(3)])
  then show ?thesis by (simp add: HND_update_partial_state_def)
qed

lemma HND_offset_nth:
  "s < 4 \<Longrightarrow> HND_kv_shared_offset A ! s = s * (arg_bdy A * arg_head_dim A)"
  by (simp add: HND_kv_shared_offset_def kv_shared_offset_nth)

lemma row_in_tile:
  fixes ty bdy D i :: nat
  assumes "ty < bdy" and "i \<le> D"
  shows "ty * D + i \<le> bdy * D"
proof -
  have "ty * D + i \<le> ty * D + D" using assms(2) by simp
  also have "\<dots> = (ty + 1) * D" by simp
  also have "\<dots> \<le> bdy * D" using assms(1) by (intro mult_le_mono1) simp
  finally show ?thesis .
qed

lemma slot_disjoint:
  fixes s s' T r r' :: nat
  assumes "s \<noteq> s'" and "r < T" and "r' < T"
  shows "s * T + r \<noteq> s' * T + r'"
  using pack_inj [of r T r' s s'] assms by auto

lemma HND_load_tile_frame:
  assumes wf: "HND_wf A" and s: "s < 4" and s': "s' < 4" and ne: "s \<noteq> s'"
    and r: "r < arg_bdy A * arg_head_dim A"
  shows "HND_load_tile A head_idx src_mem s pred_guard kv_idx smem
           (HND_kv_shared_offset A ! s' + r)
       = smem (HND_kv_shared_offset A ! s' + r)"
  unfolding HND_load_tile_def
proof (rule bma_frame, intro ballI impI)
  fix t assume t: "t \<in> set (HND_threads A)"
  obtain tx ty where t_eq: "t = (tx, ty)" by (cases t)
  have b: "tx < arg_bdx A" "ty < arg_bdy A" using t t_eq by (simp_all add: HND_threads_mem)
  let ?T = "arg_bdy A * arg_head_dim A"
  have D: "arg_bdx A * arg_vec_size A = arg_head_dim A" using wf by (simp add: HND_wf_def)
  show "\<not> ((case t of (tx, ty) \<Rightarrow> HND_kv_shared_offset A ! s + ty * arg_head_dim A
               + tx * arg_vec_size A) \<le> HND_kv_shared_offset A ! s' + r
          \<and> HND_kv_shared_offset A ! s' + r
             < (case t of (tx, ty) \<Rightarrow> HND_kv_shared_offset A ! s + ty * arg_head_dim A
                  + tx * arg_vec_size A) + arg_vec_size A)"
  proof
    assume h: "(case t of (tx, ty) \<Rightarrow> HND_kv_shared_offset A ! s + ty * arg_head_dim A
               + tx * arg_vec_size A) \<le> HND_kv_shared_offset A ! s' + r
          \<and> HND_kv_shared_offset A ! s' + r
             < (case t of (tx, ty) \<Rightarrow> HND_kv_shared_offset A ! s + ty * arg_head_dim A
                  + tx * arg_vec_size A) + arg_vec_size A"
    define L where "L = s * ?T + ty * arg_head_dim A + tx * arg_vec_size A"
    define X where "X = s' * ?T + r"
    define q where "q = X - L"
    have "L \<le> X" "X < L + arg_vec_size A"
      using h by (simp_all add: t_eq HND_offset_nth s s' L_def X_def)
    then have "q < arg_vec_size A" "X = L + q"
      by (simp_all add: q_def)
    then have q: "q < arg_vec_size A"
      "s' * ?T + r = s * ?T + (ty * arg_head_dim A + (tx * arg_vec_size A + q))"
      by (simp_all add: L_def X_def)
    have "tx * arg_vec_size A + q < arg_head_dim A"
      using lane_in_row [OF b(1), of "arg_vec_size A"] q(1) D by simp
    then have "ty * arg_head_dim A + (tx * arg_vec_size A + q) < ?T"
      using row_in_tile [OF b(2), of "Suc (tx * arg_vec_size A + q)" "arg_head_dim A"] by simp
    then show False
      using slot_disjoint [OF ne _ r, of "ty * arg_head_dim A + (tx * arg_vec_size A + q)"] q(2)
      by simp
  qed
qed

lemma HND_load_tile_row_frame:
  assumes wf: "HND_wf A" and s: "s < 4" and s': "s' < 4" and ne: "s \<noteq> s'"
    and ty: "ty < arg_bdy A"
    and re: "row_eq (arg_head_dim A) smem (HND_kv_shared_offset A ! s' + ty * arg_head_dim A) g b"
  shows "row_eq (arg_head_dim A) (HND_load_tile A head_idx src_mem s pred_guard kv_idx smem)
           (HND_kv_shared_offset A ! s' + ty * arg_head_dim A) g b"
  unfolding row_eq_def
proof (intro allI impI)
  fix i assume i: "i < arg_head_dim A"
  have "ty * arg_head_dim A + i < arg_bdy A * arg_head_dim A"
    using row_in_tile [OF ty, of "Suc i" "arg_head_dim A"] i by simp
  then have "HND_load_tile A head_idx src_mem s pred_guard kv_idx smem
           (HND_kv_shared_offset A ! s' + (ty * arg_head_dim A + i))
       = smem (HND_kv_shared_offset A ! s' + (ty * arg_head_dim A + i))"
    by (rule HND_load_tile_frame [OF wf s s' ne])
  then show "HND_load_tile A head_idx src_mem s pred_guard kv_idx smem
           (HND_kv_shared_offset A ! s' + ty * arg_head_dim A + i) = g (b + i)"
    using re i by (simp add: row_eq_def add.assoc)
qed

lemma HND_compute_stages_ref:
  assumes wf: "HND_wf A"
    and c: "r_compute_stage_idx R \<in> {0, 2}"
  shows "tx < arg_bdx A \<Longrightarrow>
         (cpg (tx, ty) \<longrightarrow>
          row_eq (arg_head_dim A) smem_qk
            (HND_kv_shared_offset A ! r_compute_stage_idx R + ty * arg_head_dim A) (arg_k A)
            ((head_idx * arg_seq_len A + kvi (tx, ty)) * arg_head_dim A)
          \<and> row_eq (arg_head_dim A) smem_upd
            (HND_kv_shared_offset A ! (r_compute_stage_idx R + 1) + ty * arg_head_dim A)
            (arg_v A)
            ((head_idx * arg_seq_len A + kvi (tx, ty)) * arg_head_dim A)) \<Longrightarrow>
         r_s_partial (HND_compute_stages A head_idx kvi cpg smem_qk smem_upd R) (tx, ty)
       = (if cpg (tx, ty)
          then HND_fold_in A head_idx tx (r_s_partial R (tx, ty)) (kvi (tx, ty))
          else r_s_partial R (tx, ty))"
    and "r_compute_stage_idx (HND_compute_stages A head_idx kvi cpg smem_qk smem_upd R)
       = (r_compute_stage_idx R + 2) mod 4"
    and "r_copy_stage_idx (HND_compute_stages A head_idx kvi cpg smem_qk smem_upd R)
       = r_copy_stage_idx R"
    and "r_smem (HND_compute_stages A head_idx kvi cpg smem_qk smem_upd R) = smem_upd"
proof -
  have D: "arg_bdx A * arg_vec_size A = arg_head_dim A" using wf by (simp add: HND_wf_def)
  have c1: "(r_compute_stage_idx R + 1) mod stages_count = r_compute_stage_idx R + 1"
    using c by (auto simp: stages_count_def)
  show "r_compute_stage_idx (HND_compute_stages A head_idx kvi cpg smem_qk smem_upd R)
       = (r_compute_stage_idx R + 2) mod 4"
    using c by (auto simp: HND_compute_stages_def Let_def stages_count_def)
  show "r_copy_stage_idx (HND_compute_stages A head_idx kvi cpg smem_qk smem_upd R)
       = r_copy_stage_idx R"
    by (simp add: HND_compute_stages_def Let_def)
  show "r_smem (HND_compute_stages A head_idx kvi cpg smem_qk smem_upd R) = smem_upd"
    by (simp add: HND_compute_stages_def Let_def)
  assume tx: "tx < arg_bdx A"
    and rows: "cpg (tx, ty) \<longrightarrow>
          row_eq (arg_head_dim A) smem_qk
            (HND_kv_shared_offset A ! r_compute_stage_idx R + ty * arg_head_dim A) (arg_k A)
            ((head_idx * arg_seq_len A + kvi (tx, ty)) * arg_head_dim A)
          \<and> row_eq (arg_head_dim A) smem_upd
            (HND_kv_shared_offset A ! (r_compute_stage_idx R + 1) + ty * arg_head_dim A)
            (arg_v A)
            ((head_idx * arg_seq_len A + kvi (tx, ty)) * arg_head_dim A)"
  show "r_s_partial (HND_compute_stages A head_idx kvi cpg smem_qk smem_upd R) (tx, ty)
       = (if cpg (tx, ty)
          then HND_fold_in A head_idx tx (r_s_partial R (tx, ty)) (kvi (tx, ty))
          else r_s_partial R (tx, ty))"
  proof (cases "cpg (tx, ty)")
    case False
    then show ?thesis
      by (simp add: HND_compute_stages_def Let_def HND_update_partial_state_def)
  next
    case True
    note r = rows [rule_format, OF True]
    have q: "HND_compute_qk (arg_float A) (arg_rotary_mode A) (arg_apply_rotary A) (arg_head_dim A)
               (arg_vec_size A) (arg_bdx A) smem_qk (q_vec_of A head_idx) (rotary_emb_of A)
               (HND_kv_shared_offset A) (kvi (tx, ty)) (r_compute_stage_idx R)
               (arg_sm_scale A) ty
           = HND_score A head_idx (kvi (tx, ty))"
      unfolding HND_score_def by (rule HND_compute_qk_row [OF D r [THEN conjunct1]])
    have u: "HND_update_partial_state (arg_head_dim A) (arg_vec_size A) smem_upd x
               (HND_kv_shared_offset A) (r_compute_stage_idx R + 1) True s tx ty
           = merge_xv s x (HND_value A head_idx (kvi (tx, ty)) tx)" for x s
      unfolding HND_value_def
      using HND_update_partial_state_row [OF D tx r [THEN conjunct2], of x True s] by simp
    have c1': "Suc (r_compute_stage_idx R) mod stages_count = Suc (r_compute_stage_idx R)"
      using c1 by simp
    have u': "HND_update_partial_state (arg_head_dim A) (arg_vec_size A) smem_upd x
               (HND_kv_shared_offset A) (Suc (r_compute_stage_idx R)) True s tx ty
           = merge_xv s x (HND_value A head_idx (kvi (tx, ty)) tx)" for x s
      using u [of x s] by simp
    show ?thesis
      using True by (simp add: HND_compute_stages_def Let_def c1' q u' HND_fold_in_def)
  qed
qed

lemma chunk_end_eq: "chunk_end_of A c = chunk_start_of A c + chunk_size_of A c"
  by (simp add: chunk_end_of_def)

lemma HND_prologue_inv:
  assumes wf: "HND_wf A"
  shows "HND_inv A head_idx kv_chunk_idx 0 (HND_prologue A head_idx kv_chunk_idx)"
proof -
  let ?g = "\<lambda>(tx, ty). ty < chunk_size_of A kv_chunk_idx"
  let ?kv = "\<lambda>(tx::nat, ty). chunk_start_of A kv_chunk_idx + ty"
  let ?smem1 = "HND_load_tile A head_idx (arg_k A) 0 ?g ?kv (arg_smem A)"
  let ?smem2 = "HND_load_tile A head_idx (arg_v A) 1 ?g ?kv ?smem1"
  have R: "HND_prologue A head_idx kv_chunk_idx
         = \<lparr>r_smem = ?smem2, r_x = (\<lambda>t. 0), r_s_partial = (\<lambda>t. init (arg_vec_size A)),
            r_copy_stage_idx = 2, r_compute_stage_idx = 0\<rparr>"
    by (simp add: HND_prologue_def Let_def)
  have rows: "row_eq (arg_head_dim A) ?smem2
            (HND_kv_shared_offset A ! 0 + ty * arg_head_dim A) (arg_k A)
            ((head_idx * arg_seq_len A + (chunk_start_of A kv_chunk_idx + ty)) * arg_head_dim A)
          \<and> row_eq (arg_head_dim A) ?smem2
            (HND_kv_shared_offset A ! 1 + ty * arg_head_dim A) (arg_v A)
            ((head_idx * arg_seq_len A + (chunk_start_of A kv_chunk_idx + ty)) * arg_head_dim A)"
    if ty: "ty < arg_bdy A" and v: "ty < chunk_size_of A kv_chunk_idx" for ty
  proof
    have g: "\<forall>tx<arg_bdx A. ?g (tx, ty) \<and> ?kv (tx, ty) = chunk_start_of A kv_chunk_idx + ty"
      using v by simp
    have k1: "row_eq (arg_head_dim A) ?smem1
            (HND_kv_shared_offset A ! 0 + ty * arg_head_dim A) (arg_k A)
            ((head_idx * arg_seq_len A + (chunk_start_of A kv_chunk_idx + ty)) * arg_head_dim A)"
      by (rule HND_load_tile_row [OF wf _ ty g]) simp
    show "row_eq (arg_head_dim A) ?smem2
            (HND_kv_shared_offset A ! 0 + ty * arg_head_dim A) (arg_k A)
            ((head_idx * arg_seq_len A + (chunk_start_of A kv_chunk_idx + ty)) * arg_head_dim A)"
      by (rule HND_load_tile_row_frame [OF wf _ _ _ ty k1]) simp_all
    show "row_eq (arg_head_dim A) ?smem2
            (HND_kv_shared_offset A ! 1 + ty * arg_head_dim A) (arg_v A)
            ((head_idx * arg_seq_len A + (chunk_start_of A kv_chunk_idx + ty)) * arg_head_dim A)"
      by (rule HND_load_tile_row [OF wf _ ty g]) simp
  qed
  show ?thesis
    unfolding HND_inv_def R using rows
    by (simp add: chunk_end_eq HND_fold_def)
qed

lemma HND_loop_body_inv:
  assumes wf: "HND_wf A"
    and inv: "HND_inv A head_idx kv_chunk_idx j R"
    and full: "\<forall>ty<arg_bdy A.
        chunk_start_of A kv_chunk_idx + j * arg_bdy A + ty < chunk_end_of A kv_chunk_idx"
  shows "HND_inv A head_idx kv_chunk_idx (Suc j)
           (HND_loop_body A head_idx kv_chunk_idx (Suc j) R)"
proof -
  let ?st = "chunk_start_of A kv_chunk_idx" and ?en = "chunk_end_of A kv_chunk_idx"
  let ?D = "arg_head_dim A" and ?off = "HND_kv_shared_offset A"
  let ?c = "r_compute_stage_idx R"
  let ?pkv = "\<lambda>(tx::nat, ty). ?st + Suc j * arg_bdy A + ty"
  let ?ckv = "\<lambda>(tx::nat, ty). ?st + (Suc j - 1) * arg_bdy A + ty"
  let ?pg = "\<lambda>t. ?pkv t < ?en"
  let ?cp = "(r_copy_stage_idx R + 1) mod stages_count"
  let ?smem1 = "HND_load_tile A head_idx (arg_k A) (r_copy_stage_idx R) ?pg ?pkv (r_smem R)"
  let ?smem2 = "HND_load_tile A head_idx (arg_v A) ?cp ?pg ?pkv ?smem1"
  let ?R' = "R\<lparr>r_copy_stage_idx := (?cp + 1) mod stages_count\<rparr>"
  let ?krow = "\<lambda>p. (head_idx * arg_seq_len A + p) * ?D"
  have body: "HND_loop_body A head_idx kv_chunk_idx (Suc j) R
      = HND_compute_stages A head_idx ?ckv (\<lambda>t. True) ?smem1 ?smem2 ?R'"
    unfolding HND_loop_body_def Let_def by (rule refl)
  from inv have c: "?c \<in> {0, 2}" and cp: "r_copy_stage_idx R = (?c + 2) mod 4"
    and rows: "\<And>ty. ty < arg_bdy A \<Longrightarrow> ?st + j * arg_bdy A + ty < ?en \<Longrightarrow>
        row_eq ?D (r_smem R) (?off ! ?c + ty * ?D) (arg_k A) (?krow (?st + j * arg_bdy A + ty))
        \<and> row_eq ?D (r_smem R) (?off ! (?c + 1) + ty * ?D) (arg_v A)
            (?krow (?st + j * arg_bdy A + ty))"
    and sp: "\<And>tx ty. tx < arg_bdx A \<Longrightarrow> ty < arg_bdy A \<Longrightarrow>
        r_s_partial R (tx, ty)
          = HND_fold A head_idx tx (map (\<lambda>b. ?st + b * arg_bdy A + ty) [0 ..< j])"
    unfolding HND_inv_def by blast+
  have c': "r_compute_stage_idx ?R' \<in> {0, 2}" using c by simp
  have copy0: "r_copy_stage_idx R < 4" "r_copy_stage_idx R \<noteq> ?c"
    "r_copy_stage_idx R \<noteq> ?c + 1"
    and copy1: "?cp < 4" "?cp \<noteq> ?c + 1" "?cp \<noteq> r_copy_stage_idx R"
      "?cp = r_copy_stage_idx R + 1"
    and c4: "?c < 4" "?c + 1 < 4"
    and copy2: "(?cp + 1) mod stages_count = ?c"
    using c cp by (auto simp: stages_count_def)
  note cs1 = HND_compute_stages_ref(1) [OF wf c', where cpg = "\<lambda>t. True"
      and smem_qk = ?smem1 and head_idx = head_idx and kvi = ?ckv and smem_upd = ?smem2]
  note cs2 = HND_compute_stages_ref(2-4) [OF wf c', where cpg = "\<lambda>t. True"
      and smem_qk = ?smem1 and head_idx = head_idx and kvi = ?ckv and smem_upd = ?smem2]
  have old_rows: "row_eq ?D ?smem1 (?off ! ?c + ty * ?D) (arg_k A)
          (?krow (?st + j * arg_bdy A + ty))
        \<and> row_eq ?D ?smem2 (?off ! (?c + 1) + ty * ?D) (arg_v A)
          (?krow (?st + j * arg_bdy A + ty))" if ty: "ty < arg_bdy A" for ty
  proof
    note r = rows [OF ty full [rule_format, OF ty]]
    show "row_eq ?D ?smem1 (?off ! ?c + ty * ?D) (arg_k A) (?krow (?st + j * arg_bdy A + ty))"
      by (rule HND_load_tile_row_frame [OF wf copy0(1) c4(1) copy0(2) ty r [THEN conjunct1]])
    have "row_eq ?D ?smem1 (?off ! (?c + 1) + ty * ?D) (arg_v A)
        (?krow (?st + j * arg_bdy A + ty))"
      by (rule HND_load_tile_row_frame [OF wf copy0(1) c4(2) copy0(3) ty r [THEN conjunct2]])
    then show "row_eq ?D ?smem2 (?off ! (?c + 1) + ty * ?D) (arg_v A)
        (?krow (?st + j * arg_bdy A + ty))"
      by (rule HND_load_tile_row_frame [OF wf copy1(1) c4(2) copy1(2) ty])
  qed
  have new_rows: "row_eq ?D ?smem2 (?off ! r_copy_stage_idx R + ty * ?D) (arg_k A)
          (?krow (?st + Suc j * arg_bdy A + ty))
        \<and> row_eq ?D ?smem2 (?off ! ?cp + ty * ?D) (arg_v A)
          (?krow (?st + Suc j * arg_bdy A + ty))"
    if ty: "ty < arg_bdy A" and v: "?st + Suc j * arg_bdy A + ty < ?en" for ty
  proof
    have g: "\<forall>tx<arg_bdx A. ?pg (tx, ty) \<and> ?pkv (tx, ty) = ?st + Suc j * arg_bdy A + ty"
      using v by simp
    have "row_eq ?D ?smem1 (?off ! r_copy_stage_idx R + ty * ?D) (arg_k A)
          (?krow (?st + Suc j * arg_bdy A + ty))"
      by (rule HND_load_tile_row [OF wf copy0(1) ty g])
    then show "row_eq ?D ?smem2 (?off ! r_copy_stage_idx R + ty * ?D) (arg_k A)
          (?krow (?st + Suc j * arg_bdy A + ty))"
      by (rule HND_load_tile_row_frame [OF wf copy1(1) copy0(1) copy1(3) ty])
    show "row_eq ?D ?smem2 (?off ! ?cp + ty * ?D) (arg_v A)
          (?krow (?st + Suc j * arg_bdy A + ty))"
      by (rule HND_load_tile_row [OF wf copy1(1) ty g])
  qed
  have s_new: "r_s_partial (HND_loop_body A head_idx kv_chunk_idx (Suc j) R) (tx, ty)
      = HND_fold A head_idx tx (map (\<lambda>b. ?st + b * arg_bdy A + ty) [0 ..< Suc j])"
    if tx: "tx < arg_bdx A" and ty: "ty < arg_bdy A" for tx ty
  proof -
    have "r_s_partial (HND_compute_stages A head_idx ?ckv (\<lambda>t. True) ?smem1 ?smem2 ?R') (tx, ty)
        = HND_fold_in A head_idx tx (r_s_partial ?R' (tx, ty)) (?ckv (tx, ty))"
      using cs1 [OF tx, of ty] old_rows [OF ty] by simp
    then show ?thesis
      unfolding body using sp [OF tx ty] by (simp add: HND_fold_def)
  qed
  have c_new: "r_compute_stage_idx (HND_loop_body A head_idx kv_chunk_idx (Suc j) R)
      = r_copy_stage_idx R"
    unfolding body using cs2(1) cp by simp
  have cp_new: "r_copy_stage_idx (HND_loop_body A head_idx kv_chunk_idx (Suc j) R) = ?c"
    unfolding body using cs2(2) copy2 by simp
  have sm_new: "r_smem (HND_loop_body A head_idx kv_chunk_idx (Suc j) R) = ?smem2"
    unfolding body using cs2(3) by simp
  have c_in: "r_copy_stage_idx R \<in> {0, 2}" "?c = (r_copy_stage_idx R + 2) mod 4"
    using c cp by auto
  show ?thesis
    unfolding HND_inv_def c_new cp_new sm_new
    using c_in new_rows s_new copy1(4) by simp
qed

lemma full_batches:
  fixes cs stride n lane :: nat
  assumes "0 < stride" and "Suc n < (cs + stride - 1) div stride" and "lane < stride"
  shows "n * stride + lane < cs"
proof -
  let ?nb = "(cs + stride - 1) div stride"
  have "?nb * stride \<le> cs + stride - 1"
    by (metis div_mult_mod_eq le_add1 mult.commute)
  moreover have "(Suc (Suc n)) * stride \<le> ?nb * stride"
    using assms(2) by (intro mult_le_mono1) simp
  moreover have "Suc (Suc n) * stride = n * stride + 2 * stride" by simp
  ultimately have "n * stride + 2 * stride \<le> cs + stride - 1" by linarith
  then show ?thesis using assms(1,3) by linarith
qed

lemma lane_positions_split:
  fixes cs stride lane start :: nat
  assumes "0 < stride" and "lane < stride"
  defines "nb \<equiv> (cs + stride - 1) div stride"
  defines "B \<equiv> (if 1 < nb then nb else 1)"
  shows "lane_positions start cs stride lane
       = map (\<lambda>b. start + b * stride + lane) [0 ..< B - 1]
         @ (if start + (B - 1) * stride + lane < start + cs
            then [start + (B - 1) * stride + lane] else [])"
proof (cases "nb = 0")
  case True
  then have "cs + stride - 1 < stride"
    using assms(1) unfolding nb_def by (simp add: div_eq_0_iff)
  then have "cs = 0" using assms(1) by linarith
  then show ?thesis
    using True unfolding lane_positions_def B_def nb_def [symmetric] by simp
next
  case False
  then have B: "B = nb" "nb = Suc (nb - 1)" unfolding B_def by auto
  have all: "filter (\<lambda>p. p < start + cs) (map (\<lambda>b. start + b * stride + lane) [0 ..< nb - 1])
      = map (\<lambda>b. start + b * stride + lane) [0 ..< nb - 1]"
  proof (rule filter_True, clarsimp)
    fix b assume "b < nb - Suc 0"
    then have "Suc b < nb" by simp
    then show "b * stride + lane < cs"
      using full_batches [OF assms(1) _ assms(2), of b cs] unfolding nb_def by simp
  qed
  have "lane_positions start cs stride lane
      = filter (\<lambda>p. p < start + cs) (map (\<lambda>b. start + b * stride + lane) [0 ..< Suc (nb - 1)])"
    unfolding lane_positions_def nb_def [symmetric] using B(2) by simp
  also have "\<dots> = map (\<lambda>b. start + b * stride + lane) [0 ..< nb - 1]
         @ (if start + (nb - 1) * stride + lane < start + cs
            then [start + (nb - 1) * stride + lane] else [])"
    unfolding upt_Suc_append [OF le0] map_append filter_append all by simp
  finally show ?thesis unfolding B(1) .
qed

lemma HND_loop_inv:
  fixes A :: kernel_args and kv_chunk_idx :: nat
  defines "nb \<equiv> (chunk_size_of A kv_chunk_idx + arg_bdy A - 1) div arg_bdy A"
  assumes wf: "HND_wf A"
    and n: "Suc n \<le> (if 1 < nb then nb else 1)"
  shows "HND_inv A head_idx kv_chunk_idx n
           (foldl (\<lambda>R batch. HND_loop_body A head_idx kv_chunk_idx batch R)
              (HND_prologue A head_idx kv_chunk_idx) [1 ..< Suc n])"
  using n
proof (induction n)
  case 0
  show ?case using HND_prologue_inv [OF wf] by simp
next
  case (Suc n)
  have bdy: "0 < arg_bdy A" using wf by (simp add: HND_wf_def)
  have nb: "Suc (Suc n) \<le> nb" using Suc.prems by (simp split: if_splits)
  have full: "\<forall>ty<arg_bdy A.
        chunk_start_of A kv_chunk_idx + n * arg_bdy A + ty < chunk_end_of A kv_chunk_idx"
  proof (intro allI impI)
    fix ty assume "ty < arg_bdy A"
    then have "n * arg_bdy A + ty < chunk_size_of A kv_chunk_idx"
      using full_batches [OF bdy, of n "chunk_size_of A kv_chunk_idx" ty] nb
      unfolding nb_def by simp
    then show "chunk_start_of A kv_chunk_idx + n * arg_bdy A + ty < chunk_end_of A kv_chunk_idx"
      by (simp add: chunk_end_eq)
  qed
  have prev: "HND_inv A head_idx kv_chunk_idx n
           (foldl (\<lambda>R batch. HND_loop_body A head_idx kv_chunk_idx batch R)
              (HND_prologue A head_idx kv_chunk_idx) [1 ..< Suc n])"
    using Suc.IH Suc.prems by (simp split: if_splits)
  have "[1 ..< Suc (Suc n)] = [1 ..< Suc n] @ [Suc n]" by simp
  then show ?case
    using HND_loop_body_inv [OF wf prev full] by (simp only: foldl_append foldl.simps)
qed

lemma HND_chunk_state_fold:
  assumes wf: "HND_wf A" and tx: "tx < arg_bdx A" and ty: "ty < arg_bdy A"
  shows "r_s_partial (HND_chunk_state A head_idx kv_chunk_idx) (tx, ty)
       = HND_fold A head_idx tx
           (lane_positions (chunk_start_of A kv_chunk_idx) (chunk_size_of A kv_chunk_idx)
              (arg_bdy A) ty)"
proof -
  define nb where "nb = (chunk_size_of A kv_chunk_idx + arg_bdy A - 1) div arg_bdy A"
  define B where "B = (if 1 < nb then nb else 1)"
  let ?st = "chunk_start_of A kv_chunk_idx" and ?en = "chunk_end_of A kv_chunk_idx"
  let ?R = "foldl (\<lambda>R batch. HND_loop_body A head_idx kv_chunk_idx batch R)
              (HND_prologue A head_idx kv_chunk_idx) [1 ..< nb]"
  let ?ckv = "\<lambda>(tx::nat, ty). ?st + (B - 1) * arg_bdy A + ty"
  let ?cpg = "\<lambda>t. ?ckv t < ?en"
  have bdy: "0 < arg_bdy A" using wf by (simp add: HND_wf_def)
  have cs_eq: "HND_chunk_state A head_idx kv_chunk_idx
      = HND_compute_stages A head_idx ?ckv ?cpg (r_smem ?R) (r_smem ?R) ?R"
    unfolding HND_chunk_state_def Let_def nb_def B_def by (rule refl)
  have upt: "[1 ..< nb] = [1 ..< Suc (B - 1)]" unfolding B_def by auto
  have "Suc (B - 1) \<le> (if 1 < nb then nb else 1)" unfolding B_def by simp
  then have "HND_inv A head_idx kv_chunk_idx (B - 1)
      (foldl (\<lambda>R batch. HND_loop_body A head_idx kv_chunk_idx batch R)
              (HND_prologue A head_idx kv_chunk_idx) [1 ..< Suc (B - 1)])"
    unfolding nb_def by (intro HND_loop_inv [OF wf])
  then have inv: "HND_inv A head_idx kv_chunk_idx (B - 1) ?R"
    by (simp only: upt)
  then have c: "r_compute_stage_idx ?R \<in> {0, 2}"
    and rows: "?st + (B - 1) * arg_bdy A + ty < ?en \<Longrightarrow>
        row_eq (arg_head_dim A) (r_smem ?R)
          (HND_kv_shared_offset A ! r_compute_stage_idx ?R + ty * arg_head_dim A) (arg_k A)
          ((head_idx * arg_seq_len A + (?st + (B - 1) * arg_bdy A + ty)) * arg_head_dim A)
        \<and> row_eq (arg_head_dim A) (r_smem ?R)
          (HND_kv_shared_offset A ! (r_compute_stage_idx ?R + 1) + ty * arg_head_dim A)
          (arg_v A)
          ((head_idx * arg_seq_len A + (?st + (B - 1) * arg_bdy A + ty)) * arg_head_dim A)"
    and sp: "r_s_partial ?R (tx, ty)
          = HND_fold A head_idx tx (map (\<lambda>b. ?st + b * arg_bdy A + ty) [0 ..< B - 1])"
    unfolding HND_inv_def using tx ty by blast+
  have "r_s_partial (HND_compute_stages A head_idx ?ckv ?cpg (r_smem ?R) (r_smem ?R) ?R) (tx, ty)
      = (if ?cpg (tx, ty) then HND_fold_in A head_idx tx (r_s_partial ?R (tx, ty)) (?ckv (tx, ty))
         else r_s_partial ?R (tx, ty))"
    using rows by (intro HND_compute_stages_ref(1) [OF wf c tx]) simp
  also have "\<dots> = HND_fold A head_idx tx
        (map (\<lambda>b. ?st + b * arg_bdy A + ty) [0 ..< B - 1]
         @ (if ?st + (B - 1) * arg_bdy A + ty < ?st + chunk_size_of A kv_chunk_idx
            then [?st + (B - 1) * arg_bdy A + ty] else []))"
    unfolding sp by (simp add: HND_fold_def chunk_end_eq)
  also have "\<dots> = HND_fold A head_idx tx
           (lane_positions ?st (chunk_size_of A kv_chunk_idx) (arg_bdy A) ty)"
    using lane_positions_split [OF bdy ty, of ?st "chunk_size_of A kv_chunk_idx"]
    unfolding B_def nb_def by simp
  finally show ?thesis unfolding cs_eq .
qed

lemma merge_xv_single: "merge_xv s x v = merge s (single x v)"
proof -
  have "map2 (\<lambda>a b. a * r1 + r2 * b) xs ys = map2 (\<lambda>a b. a * r1 + b * r2) xs ys"
    for r1 r2 :: real and xs ys
    by (simp add: mult.commute)
  then show ?thesis
    by (simp add: merge_xv_def merge_def merge_mdo_def single_def Let_def)
qed

lemma length_so_merge: "length (so (merge a b)) = min (length (so a)) (length (so b))"
  by (simp add: merge_def merge_mdo_def Let_def)

lemma merge_init_right: "length (so a) \<le> n \<Longrightarrow> merge a (init n) = a"
proof -
  assume l: "length (so a) \<le> n"
  have "map2 (\<lambda>x y. x * 1 + y * r) xs (replicate n 0) = xs" if "length xs \<le> n"
    for r :: real and xs :: "real list"
    using that by (intro nth_equalityI) simp_all
  then show ?thesis using l
    by (simp add: merge_def merge_mdo_def init_def Let_def)
qed

lemma merge_init_left: "length (so a) \<le> n \<Longrightarrow> merge (init n) a = a"
  using merge_init_right [of a n] by (simp add: merge_commute)

lemma length_so_merge_all: "length (so (merge_all n ts)) \<le> n"
  unfolding merge_all_def
  by (induction ts rule: rev_induct) (simp_all add: length_so_merge init_def)

lemma merge_all_append: "merge_all n (ts @ us) = merge (merge_all n ts) (merge_all n us)"
proof (induction us rule: rev_induct)
  case Nil
  have "merge_all n [] = init n" by (simp add: merge_all_def)
  then show ?case using merge_init_right [OF length_so_merge_all, of n ts] by simp
next
  case (snoc u us)
  have "merge_all n (ts @ us @ [u]) = merge (merge_all n (ts @ us)) u"
    by (simp add: merge_all_def)
  also have "\<dots> = merge (merge_all n ts) (merge (merge_all n us) u)"
    by (simp add: snoc.IH merge_assoc)
  also have "merge (merge_all n us) u = merge_all n (us @ [u])"
    by (simp add: merge_all_def)
  finally show ?case .
qed

lemma merge_all_concat: "merge_all n (map (merge_all n) tss) = merge_all n (concat tss)"
proof (induction tss rule: rev_induct)
  case Nil
  show ?case by simp
next
  case (snoc ts tss)
  have "merge_all n (map (merge_all n) (tss @ [ts]))
      = merge (merge_all n (map (merge_all n) tss)) (merge_all n ts)"
    by (simp add: merge_all_def)
  then show ?case by (simp add: snoc.IH merge_all_append)
qed

lemma merge_all_mset:
  assumes "mset ts = mset us"
  shows "merge_all n ts = merge_all n us"
proof -
  have comm: "(\<lambda>s. merge s a) \<circ> (\<lambda>s. merge s b) = (\<lambda>s. merge s b) \<circ> (\<lambda>s. merge s a)"
    for a b
  proof
    fix s
    have "merge (merge s b) a = merge s (merge b a)" by (rule merge_assoc)
    also have "\<dots> = merge s (merge a b)" by (simp add: merge_commute)
    also have "\<dots> = merge (merge s a) b" by (rule merge_assoc [symmetric])
    finally show "((\<lambda>s. merge s a) \<circ> (\<lambda>s. merge s b)) s
        = ((\<lambda>s. merge s b) \<circ> (\<lambda>s. merge s a)) s"
      by simp
  qed
  have "fold (\<lambda>t s. merge s t) ts = fold (\<lambda>t s. merge s t) us"
    by (rule fold_multiset_equiv [OF _ assms]) (rule comm)
  then show ?thesis by (simp add: merge_all_def foldl_conv_fold)
qed

lemma seq_fold_merge_all: "seq_fold n x v ps = merge_all n (map (\<lambda>p. single (x p) (v p)) ps)"
  unfolding seq_fold_def merge_all_def
  by (induction ps rule: rev_induct) (simp_all add: merge_xv_single)

lemma seq_fold_mset:
  "mset ps = mset qs \<Longrightarrow> seq_fold n x v ps = seq_fold n x v qs"
  unfolding seq_fold_merge_all by (rule merge_all_mset) (metis mset_map)

lemma merge_all_seq_folds:
  "merge_all n (map (seq_fold n x v) pss) = seq_fold n x v (concat pss)"
proof -
  have "map (seq_fold n x v) pss
      = map (merge_all n) (map (map (\<lambda>p. single (x p) (v p))) pss)"
    by (simp add: seq_fold_merge_all)
  then have "merge_all n (map (seq_fold n x v) pss)
      = merge_all n (concat (map (map (\<lambda>p. single (x p) (v p))) pss))"
    by (simp only: merge_all_concat)
  then show ?thesis
    by (simp add: seq_fold_merge_all map_concat)
qed

lemma length_so_seq_fold:
  assumes "\<forall>p\<in>set ps. length (v p) = n"
  shows "length (so (seq_fold n x v ps)) = n"
  using assms unfolding seq_fold_def
  by (induction ps rule: rev_induct) (simp_all add: merge_xv_def Let_def init_def)


lemma md_seq_fold:
  assumes "\<forall>p\<in>set ps. x p = x' p"
  shows "sm (seq_fold n x v ps) = sm (seq_fold n x' v' ps)"
    and "sd (seq_fold n x v ps) = sd (seq_fold n x' v' ps)"
proof -
  have "sm (seq_fold n x v ps) = sm (seq_fold n x' v' ps)
      \<and> sd (seq_fold n x v ps) = sd (seq_fold n x' v' ps)"
    using assms unfolding seq_fold_def
    by (induction ps rule: rev_induct) (simp_all add: merge_xv_def Let_def init_def)
  then show "sm (seq_fold n x v ps) = sm (seq_fold n x' v' ps)"
    and "sd (seq_fold n x v ps) = sd (seq_fold n x' v' ps)" by simp_all
qed

lemma distinct_concat_map:
  assumes "distinct js"
    and "\<And>j. j \<in> set js \<Longrightarrow> distinct (f j)"
    and "\<And>i j. i \<in> set js \<Longrightarrow> j \<in> set js \<Longrightarrow> i \<noteq> j \<Longrightarrow> set (f i) \<inter> set (f j) = {}"
  shows "distinct (concat (map f js))"
  using assms
proof (induction js)
  case Nil
  show ?case by simp
next
  case (Cons j js)
  have "set (f j) \<inter> set (f i) = {}" if "i \<in> set js" for i
    using Cons.prems(1) Cons.prems(3) [of j i] that by auto
  then have "set (f j) \<inter> \<Union> (set ` f ` set js) = {}" by blast
  moreover have "distinct (concat (map f js))"
    using Cons.prems by (intro Cons.IH) auto
  ultimately show ?case using Cons.prems(2) by simp
qed

lemma set_lane_positions:
  "set (lane_positions start cs stride lane)
     = {p. p < start + cs \<and> (\<exists>b<(cs + stride - 1) div stride. p = start + b * stride + lane)}"
  unfolding lane_positions_def by auto

lemma distinct_lane_positions:
  assumes "0 < stride"
  shows "distinct (lane_positions start cs stride lane)"
proof -
  have "inj_on (\<lambda>b. start + b * stride + lane) (set [0 ..< (cs + stride - 1) div stride])"
    using assms by (intro inj_onI) simp
  then show ?thesis
    unfolding lane_positions_def by (intro distinct_filter) (simp add: distinct_map)
qed

lemma mset_lanes:
  assumes st: "0 < stride"
  shows "mset (concat (map (lane_positions start cs stride) [0 ..< stride]))
       = mset [start ..< start + cs]"
proof -
  let ?nb = "(cs + stride - 1) div stride"
  have d: "distinct (concat (map (lane_positions start cs stride) [0 ..< stride]))"
  proof (rule distinct_concat_map)
    show "distinct [0 ..< stride]" by simp
    show "distinct (lane_positions start cs stride j)" for j
      by (rule distinct_lane_positions [OF st])
    fix i j assume ij: "i \<in> set [0 ..< stride]" "j \<in> set [0 ..< stride]" "i \<noteq> j"
    show "set (lane_positions start cs stride i) \<inter> set (lane_positions start cs stride j) = {}"
    proof (rule ccontr)
      assume "set (lane_positions start cs stride i) \<inter> set (lane_positions start cs stride j)
          \<noteq> {}"
      then obtain b b' where "start + b * stride + i = start + b' * stride + j"
        unfolding set_lane_positions by auto
      then have "b * stride + i = b' * stride + j" by simp
      then show False using pack_inj [of i stride j b b'] ij by simp
    qed
  qed
  have s: "set (concat (map (lane_positions start cs stride) [0 ..< stride]))
      = set [start ..< start + cs]"
  proof (intro equalityI subsetI)
    fix p assume "p \<in> set (concat (map (lane_positions start cs stride) [0 ..< stride]))"
    then obtain j where "p \<in> set (lane_positions start cs stride j)" by auto
    then show "p \<in> set [start ..< start + cs]"
      unfolding set_lane_positions by auto
  next
    fix p assume "p \<in> set [start ..< start + cs]"
    then have p: "start \<le> p" "p < start + cs" by simp_all
    define i where "i = p - start"
    have i: "i < cs" "p = start + i" using p by (simp_all add: i_def)
    have "(i + stride) div stride \<le> ?nb"
      using i(1) by (intro div_le_mono) simp
    then have b: "i div stride < ?nb" using st by simp
    have "p = start + (i div stride) * stride + i mod stride" using i(2) by simp
    then have "p \<in> set (lane_positions start cs stride (i mod stride))"
      unfolding set_lane_positions using b p(2) by blast
    moreover have "i mod stride \<in> set [0 ..< stride]" using st by simp
    ultimately show "p \<in> set (concat (map (lane_positions start cs stride) [0 ..< stride]))"
      by (simp del: set_upt) blast
  qed
  have "distinct [start ..< start + cs]" by simp
  then show ?thesis
    using set_eq_iff_mset_eq_distinct [OF d] s by blast
qed



lemma block_store_frame:
  assumes "\<forall>t\<in>set threads. \<not> (dst t \<le> a \<and> a < dst t + length (vecs t))"
  shows "block_store threads dst vecs fm a = fm a"
  using assms unfolding block_store_def
  by (induction threads rule: rev_induct) (auto simp: vec_store_def)

lemma block_store_hit:
  assumes "t \<in> set threads" and "dst t \<le> a" and "a < dst t + length (vecs t)"
    and "\<forall>t'\<in>set threads. dst t' \<le> a \<longrightarrow> a < dst t' + length (vecs t')
           \<longrightarrow> vecs t' ! (a - dst t') = vecs t ! (a - dst t)"
  shows "block_store threads dst vecs fm a = Fin (vecs t ! (a - dst t))"
  using assms unfolding block_store_def
proof (induction threads rule: rev_induct)
  case Nil
  then show ?case by simp
next
  case (snoc u us)
  show ?case
  proof (cases "dst u \<le> a \<and> a < dst u + length (vecs u)")
    case True
    then have "vecs u ! (a - dst u) = vecs t ! (a - dst t)"
      using snoc.prems(4) by simp
    then show ?thesis using True by (simp add: vec_store_def)
  next
    case False
    then have "t \<noteq> u" using snoc.prems(2,3) by auto
    then have "t \<in> set us" using snoc.prems(1) by simp
    moreover have "\<forall>t'\<in>set us. dst t' \<le> a \<longrightarrow> a < dst t' + length (vecs t')
           \<longrightarrow> vecs t' ! (a - dst t') = vecs t ! (a - dst t)"
      using snoc.prems(4) by simp
    ultimately have "foldl (\<lambda>m t. vec_store m (dst t) (vecs t)) fm us a
        = Fin (vecs t ! (a - dst t))"
      using snoc.IH snoc.prems(2,3) by blast
    then show ?thesis using False by (auto simp: vec_store_def)
  qed
qed

lemma block_store_cell_frame:
  assumes "\<forall>t\<in>set threads. dst t \<noteq> a"
  shows "block_store_cell threads dst vals fm a = fm a"
  using assms unfolding block_store_cell_def
proof (induction threads rule: rev_induct)
  case Nil
  show ?case by simp
next
  case (snoc u us)
  have "dst u \<noteq> a" using snoc.prems by simp
  moreover have "foldl (\<lambda>m t. cell_store m (dst t) (vals t)) fm us a = fm a"
    using snoc.IH snoc.prems by simp
  ultimately show ?case by (simp add: cell_store_def)
qed

lemma block_store_cell_hit:
  assumes "t \<in> set threads" and "dst t = a"
    and "\<forall>t'\<in>set threads. dst t' = a \<longrightarrow> vals t' = vals t"
  shows "block_store_cell threads dst vals fm a = vals t"
  using assms unfolding block_store_cell_def
proof (induction threads rule: rev_induct)
  case Nil
  then show ?case by simp
next
  case (snoc u us)
  show ?case
  proof (cases "dst u = a")
    case True
    then have "vals u = vals t" using snoc.prems(3) by simp
    then show ?thesis using True by (simp add: cell_store_def)
  next
    case False
    then have "t \<noteq> u" using snoc.prems(2) by auto
    then have "t \<in> set us" using snoc.prems(1) by simp
    moreover have "\<forall>t'\<in>set us. dst t' = a \<longrightarrow> vals t' = vals t"
      using snoc.prems(3) by simp
    ultimately have "foldl (\<lambda>m t. cell_store m (dst t) (vals t)) fm us a = vals t"
      using snoc.IH snoc.prems(2) by blast
    then show ?thesis using False by (simp add: cell_store_def)
  qed
qed

lemma fvec_load_stored:
  assumes "\<forall>i<n. fm (p + i) = Fin (v ! i)" and "length v = n"
  shows "fvec_load n fm p = v"
  unfolding fvec_load_def using assms by (intro nth_equalityI) simp_all

lemma lane_pack_inj:
  fixes tx tx' bdx v D ty ty' i i' :: nat
  assumes "bdx * v = D" and "tx < bdx" and "tx' < bdx" and "i < v" and "i' < v"
    and "ty * D + tx * v + i = ty' * D + tx' * v + i'"
  shows "ty = ty' \<and> tx = tx' \<and> i = i'"
proof -
  have a: "tx * v + i < D" "tx' * v + i' < D"
    using lane_in_row [OF assms(2), of v] lane_in_row [OF assms(3), of v] assms(1,4,5)
    by simp_all
  have "ty * D + (tx * v + i) = ty' * D + (tx' * v + i')" using assms(6) by simp
  then have "ty = ty'" "tx * v + i = tx' * v + i'"
    using pack_inj [OF a(1) a(2)] by simp_all
  then show ?thesis using pack_inj [OF assms(4,5)] by simp
qed

lemma HND_sync_state_merge_all:
  assumes wf: "HND_wf A" and u: "lane_uniform A s" and tx: "tx < arg_bdx A"
  shows "fst (HND_sync_state A s bufs) (tx, ty)
       = merge_all (arg_vec_size A) (map (\<lambda>j. s (tx, j)) [0 ..< arg_bdy A])"
proof -
  let ?D = "arg_head_dim A" and ?v = "arg_vec_size A"
  let ?bufs = "HND_sync_store A s bufs"
  have D: "arg_bdx A * ?v = ?D" using wf by (simp add: HND_wf_def)
  have len: "length (so (s (tx', j))) = ?v" and
    usm: "sm (s (tx', j)) = sm (s (0, j))" and usd: "sd (s (tx', j)) = sd (s (0, j))"
    if "tx' < arg_bdx A" "j < arg_bdy A" for tx' j
    using u that unfolding lane_uniform_def by blast+
  have o: "fvec_load ?v (fst ?bufs) (j * ?D + tx * ?v) = so (s (tx, j))"
    if j: "j < arg_bdy A" for j
  proof (rule fvec_load_stored [OF _ len [OF tx j]], intro allI impI)
    fix i assume i: "i < ?v"
    let ?dst = "\<lambda>(tx, ty). ty * ?D + tx * ?v"
    let ?a = "j * ?D + tx * ?v + i"
    have mem: "(tx, j) \<in> set (HND_threads A)" using tx j by (simp add: HND_threads_mem)
    have uniq: "\<forall>t'\<in>set (HND_threads A). ?dst t' \<le> ?a \<longrightarrow> ?a < ?dst t' + length (so (s t'))
           \<longrightarrow> so (s t') ! (?a - ?dst t') = so (s (tx, j)) ! (?a - ?dst (tx, j))"
    proof (intro ballI impI)
      fix t' assume t': "t' \<in> set (HND_threads A)" and lo: "?dst t' \<le> ?a"
        and hi: "?a < ?dst t' + length (so (s t'))"
      obtain tx' ty' where te: "t' = (tx', ty')" by (cases t')
      have b: "tx' < arg_bdx A" "ty' < arg_bdy A" using t' te by (simp_all add: HND_threads_mem)
      define r where "r = ?a - ?dst t'"
      have r: "r < ?v" "j * ?D + tx * ?v + i = ty' * ?D + tx' * ?v + r"
        using lo hi len [OF b] by (simp_all add: r_def te)
      have "j = ty' \<and> tx = tx' \<and> i = r"
        by (rule lane_pack_inj [OF D tx b(1) i r(1) r(2)])
      then show "so (s t') ! (?a - ?dst t') = so (s (tx, j)) ! (?a - ?dst (tx, j))"
        by (simp add: te)
    qed
    have "fst ?bufs ?a = Fin (so (s (tx, j)) ! (?a - ?dst (tx, j)))"
      unfolding HND_sync_store_def fst_conv
      using i len [OF tx j] by (intro block_store_hit [OF mem _ _ uniq]) simp_all
    then show "fst ?bufs (j * ?D + tx * ?v + i) = Fin (so (s (tx, j)) ! i)" by simp
  qed
  have m: "snd ?bufs (j * 2) = sm (s (tx, j))" if j: "j < arg_bdy A" for j
  proof -
    have mem: "(tx, j) \<in> set (HND_threads A)" using tx j by (simp add: HND_threads_mem)
    have fr: "\<forall>t\<in>set (HND_threads A). (case t of (tx, ty) \<Rightarrow> ty * 2 + 1) \<noteq> j * 2"
    proof
      fix t :: "nat \<times> nat"
      obtain tx' ty' where te: "t = (tx', ty')" by (cases t)
      have "ty' * 2 + 1 \<noteq> j * 2" by presburger
      then show "(case t of (tx, ty) \<Rightarrow> ty * 2 + 1) \<noteq> j * 2" by (simp add: te)
    qed
    have hit: "(case (tx, j) of (tx, ty) \<Rightarrow> ty * 2) = j * 2" by simp
    have uniq: "\<forall>t'\<in>set (HND_threads A). (case t' of (tx, ty) \<Rightarrow> ty * 2) = j * 2
        \<longrightarrow> sm (s t') = sm (s (tx, j))"
    proof (intro ballI impI)
      fix t' assume t': "t' \<in> set (HND_threads A)"
        and e: "(case t' of (tx, ty) \<Rightarrow> ty * 2) = j * 2"
      obtain tx' ty' where te: "t' = (tx', ty')" by (cases t')
      have "tx' < arg_bdx A" "ty' = j" using t' e te by (simp_all add: HND_threads_mem)
      then show "sm (s t') = sm (s (tx, j))"
        using usm [of tx' j] usm [OF tx j] j by (simp add: te)
    qed
    have "snd ?bufs (j * 2)
        = block_store_cell (HND_threads A) (\<lambda>(tx, ty). ty * 2) (\<lambda>t. sm (s t)) (snd bufs) (j * 2)"
      unfolding HND_sync_store_def snd_conv
      by (rule block_store_cell_frame [OF fr])
    also have "\<dots> = sm (s (tx, j))"
      by (rule block_store_cell_hit [OF mem hit uniq])
    finally show ?thesis .
  qed
  have d: "fin_of (snd ?bufs (Suc (j * 2))) = sd (s (tx, j))" if j: "j < arg_bdy A" for j
  proof -
    have mem: "(tx, j) \<in> set (HND_threads A)" using tx j by (simp add: HND_threads_mem)
    have hit: "(case (tx, j) of (tx, ty) \<Rightarrow> ty * 2 + 1) = j * 2 + 1" by simp
    have uniq: "\<forall>t'\<in>set (HND_threads A). (case t' of (tx, ty) \<Rightarrow> ty * 2 + 1) = j * 2 + 1
        \<longrightarrow> Fin (sd (s t')) = Fin (sd (s (tx, j)))"
    proof (intro ballI impI)
      fix t' assume t': "t' \<in> set (HND_threads A)"
        and e: "(case t' of (tx, ty) \<Rightarrow> ty * 2 + 1) = j * 2 + 1"
      obtain tx' ty' where te: "t' = (tx', ty')" by (cases t')
      have "tx' < arg_bdx A" "ty' = j" using t' e te by (simp_all add: HND_threads_mem)
      then show "Fin (sd (s t')) = Fin (sd (s (tx, j)))"
        using usd [of tx' j] usd [OF tx j] j by (simp add: te)
    qed
    have "snd ?bufs (j * 2 + 1) = Fin (sd (s (tx, j)))"
      unfolding HND_sync_store_def snd_conv
      by (rule block_store_cell_hit [OF mem hit uniq])
    then show ?thesis by simp
  qed
  have step: "merge_mdo st (snd ?bufs (j * 2)) (fin_of (snd ?bufs (j * 2 + 1)))
                    (fvec_load ?v (fst ?bufs) (j * ?D + tx * ?v))
      = merge st (s (tx, j))" if "j < arg_bdy A" for st j
    unfolding merge_def o [OF that] m [OF that] using d [OF that] by simp
  have "HND_sync_merge A ?bufs tx
      = foldl (\<lambda>st j. merge st (s (tx, j))) (init ?v) [0 ..< arg_bdy A]"
    unfolding HND_sync_merge_def
  proof (rule foldl_cong [OF refl refl])
    fix st j assume "j \<in> set [0 ..< arg_bdy A]"
    then have "j < arg_bdy A" by simp
    then show "merge_mdo st (snd ?bufs (j * 2)) (fin_of (snd ?bufs (j * 2 + 1)))
                    (fvec_load ?v (fst ?bufs) (j * ?D + tx * ?v))
      = merge st (s (tx, j))" by (rule step)
  qed
  also have "\<dots> = merge_all ?v (map (\<lambda>j. s (tx, j)) [0 ..< arg_bdy A])"
    by (simp add: merge_all_def foldl_map)
  finally show ?thesis by (simp add: HND_sync_state_def Let_def)
qed

lemma HND_fold_seq:
  "HND_fold A head_idx tx ps
     = seq_fold (arg_vec_size A) (\<lambda>p. HND_score A head_idx p ! tx)
         (\<lambda>p. HND_value A head_idx p tx) ps"
  unfolding HND_fold_def seq_fold_def HND_fold_in_def [abs_def] by (rule refl)

lemma HND_score_lane:
  "tx < arg_bdx A \<Longrightarrow> HND_score A head_idx p ! tx = HND_score A head_idx p ! 0"
  by (simp add: HND_score_def HND_compute_qk_def Let_def shfl_def)

lemma HND_fold_uniform:
  assumes "tx < arg_bdx A"
  shows "length (so (HND_fold A head_idx tx ps)) = arg_vec_size A"
    and "sm (HND_fold A head_idx tx ps) = sm (HND_fold A head_idx 0 ps)"
    and "sd (HND_fold A head_idx tx ps) = sd (HND_fold A head_idx 0 ps)"
proof -
  show "length (so (HND_fold A head_idx tx ps)) = arg_vec_size A"
    unfolding HND_fold_seq by (rule length_so_seq_fold) (simp add: HND_value_def vec_load_def)
  have x: "\<forall>p\<in>set ps. HND_score A head_idx p ! tx = HND_score A head_idx p ! 0"
    using HND_score_lane [OF assms] by simp
  show "sm (HND_fold A head_idx tx ps) = sm (HND_fold A head_idx 0 ps)"
    unfolding HND_fold_seq by (rule md_seq_fold(1) [OF x])
  show "sd (HND_fold A head_idx tx ps) = sd (HND_fold A head_idx 0 ps)"
    unfolding HND_fold_seq by (rule md_seq_fold(2) [OF x])
qed

lemma HND_block_partial_fold:
  assumes wf: "HND_wf A" and tx: "tx < arg_bdx A"
  shows "fst (HND_block_partial A head_idx kv_chunk_idx) (tx, ty)
       = HND_chunk_fold A head_idx kv_chunk_idx tx"
proof -
  let ?s = "r_s_partial (HND_chunk_state A head_idx kv_chunk_idx)"
  let ?st = "chunk_start_of A kv_chunk_idx" and ?cs = "chunk_size_of A kv_chunk_idx"
  let ?LP = "lane_positions ?st ?cs (arg_bdy A)"
  have bdy: "0 < arg_bdy A" using wf by (simp add: HND_wf_def)
  have bdx: "0 < arg_bdx A" using tx by simp
  have s: "?s (tx', j) = HND_fold A head_idx tx' (?LP j)"
    if "tx' < arg_bdx A" "j < arg_bdy A" for tx' j
    by (rule HND_chunk_state_fold [OF wf that])
  have u: "lane_uniform A ?s"
    unfolding lane_uniform_def
  proof (intro allI impI)
    fix tx' j assume a: "tx' < arg_bdx A" "j < arg_bdy A"
    show "length (so (?s (tx', j))) = arg_vec_size A
        \<and> sm (?s (tx', j)) = sm (?s (0, j)) \<and> sd (?s (tx', j)) = sd (?s (0, j))"
      unfolding s [OF a] s [OF bdx a(2)]
      using HND_fold_uniform [OF a(1), of head_idx "?LP j"] by simp
  qed
  have "fst (HND_block_partial A head_idx kv_chunk_idx) (tx, ty)
      = merge_all (arg_vec_size A) (map (\<lambda>j. ?s (tx, j)) [0 ..< arg_bdy A])"
    unfolding HND_block_partial_def by (rule HND_sync_state_merge_all [OF wf u tx])
  also have "map (\<lambda>j. ?s (tx, j)) [0 ..< arg_bdy A]
      = map (HND_fold A head_idx tx) (map ?LP [0 ..< arg_bdy A])"
    using s [OF tx] by simp
  also have "merge_all (arg_vec_size A) \<dots>
      = HND_fold A head_idx tx (concat (map ?LP [0 ..< arg_bdy A]))"
    using merge_all_seq_folds [of "arg_vec_size A" "\<lambda>p. HND_score A head_idx p ! tx"
        "\<lambda>p. HND_value A head_idx p tx" "map ?LP [0 ..< arg_bdy A]"]
    unfolding HND_fold_seq [symmetric] by (simp only: map_map comp_def)
  also have "\<dots> = HND_fold A head_idx tx [?st ..< ?st + ?cs]"
    unfolding HND_fold_seq by (rule seq_fold_mset) (rule mset_lanes [OF bdy])
  finally show ?thesis by (simp add: HND_chunk_fold_def chunk_end_eq)
qed

lemma HND_grid_mem:
  "((bx, by), (tx, ty)) \<in> set (HND_grid A)
     \<longleftrightarrow> bx < arg_gridDim_x A \<and> by < arg_gridDim_y A \<and> tx < arg_bdx A \<and> ty < arg_bdy A"
  by (auto simp: HND_grid_def HND_threads_def)

lemma pair_pack_inj:
  fixes h c h' c' C :: nat
  assumes "c < C" and "c' < C" and "h * C + c = h' * C + c'"
  shows "h = h' \<and> c = c'"
  using pack_inj [OF assms] .

lemma pair_pack_less:
  fixes h c H C :: nat
  assumes "h < H" and "c < C"
  shows "h * C + c < H * C"
  using row_in_tile [OF assms(1), of "Suc c" C] assms(2) by simp

lemma HND_tmp_o_inj:
  assumes D: "arg_bdx A * arg_vec_size A = arg_head_dim A"
    and "c < arg_gridDim_x A" "c' < arg_gridDim_x A"
    and "tx < arg_bdx A" "tx' < arg_bdx A" "i < arg_vec_size A" "i' < arg_vec_size A"
    and "HND_tmp_o A h c tx + i = HND_tmp_o A h' c' tx' + i'"
  shows "h = h' \<and> c = c' \<and> tx = tx' \<and> i = i'"
proof -
  have "h * arg_gridDim_x A + c = h' * arg_gridDim_x A + c' \<and> tx = tx' \<and> i = i'"
    using lane_pack_inj [OF D assms(4-7), of "h * arg_gridDim_x A + c"
        "h' * arg_gridDim_x A + c'"] assms(8)
    by (simp add: HND_tmp_o_def)
  then show ?thesis using pair_pack_inj [OF assms(2,3)] by blast
qed

lemma HND_tmp_o_less:
  assumes D: "arg_bdx A * arg_vec_size A = arg_head_dim A"
    and "h < arg_gridDim_y A" "c < arg_gridDim_x A" "tx < arg_bdx A" "i < arg_vec_size A"
  shows "HND_tmp_o A h c tx + i < arg_gridDim_y A * arg_gridDim_x A * arg_head_dim A"
proof -
  have "tx * arg_vec_size A + i < arg_head_dim A"
    using lane_in_row [OF assms(4), of "arg_vec_size A"] assms(5) D by simp
  then have "(h * arg_gridDim_x A + c) * arg_head_dim A + (tx * arg_vec_size A + i)
      < (arg_gridDim_y A * arg_gridDim_x A) * arg_head_dim A"
    using row_in_tile [OF pair_pack_less [OF assms(2,3)],
        of "Suc (tx * arg_vec_size A + i)" "arg_head_dim A"] by simp
  then show ?thesis by (simp add: HND_tmp_o_def add.assoc)
qed

lemma HND_tmp_md_inj:
  assumes "c < arg_gridDim_x A" "c' < arg_gridDim_x A" "e < 2" "e' < 2"
    and "HND_tmp_md A h c + e = HND_tmp_md A h' c' + e'"
  shows "h = h' \<and> c = c' \<and> e = e'"
proof -
  have "(h * arg_gridDim_x A + c) * 2 + e = (h' * arg_gridDim_x A + c') * 2 + e'"
    using assms(5) by (simp add: HND_tmp_md_def)
  then have "h * arg_gridDim_x A + c = h' * arg_gridDim_x A + c' \<and> e = e'"
    by (rule pack_inj [OF assms(3,4)])
  then show ?thesis using pair_pack_inj [OF assms(1,2)] by blast
qed

lemma HND_tmp_partial_read:
  assumes wf: "HND_wf A" and h: "h < arg_gridDim_y A" and c: "c < arg_gridDim_x A"
    and tx: "tx < arg_bdx A"
  shows "fvec_load (arg_vec_size A) (HND_tmp_partial A tmp) (HND_tmp_o A h c tx)
           = so (HND_chunk_fold A h c tx)"
    and "HND_tmp_partial A tmp (HND_tmp_md A h c) = sm (HND_chunk_fold A h c tx)"
    and "fin_of (HND_tmp_partial A tmp (HND_tmp_md A h c + 1)) = sd (HND_chunk_fold A h c tx)"
proof -
  let ?v = "arg_vec_size A"
  let ?S = "\<lambda>((bx, by), t). fst (HND_block_partial A by bx) t"
  let ?do = "\<lambda>((bx, by), (tx, ty :: nat)). HND_tmp_o A by bx tx"
  let ?dm = "\<lambda>((bx, by), t :: nat \<times> nat). HND_tmp_md A by bx"
  let ?dd = "\<lambda>((bx, by), t :: nat \<times> nat). HND_tmp_md A by bx + 1"
  let ?tmp1 = "block_store (HND_grid A) ?do (\<lambda>g. so (?S g)) tmp"
  let ?tmp2 = "block_store_cell (HND_grid A) ?dm (\<lambda>g. sm (?S g)) ?tmp1"
  let ?tmp3 = "block_store_cell (HND_grid A) ?dd (\<lambda>g. Fin (sd (?S g))) ?tmp2"
  have D: "arg_bdx A * ?v = arg_head_dim A" and bdy: "0 < arg_bdy A"
    using wf by (simp_all add: HND_wf_def)
  have bdx: "0 < arg_bdx A" using tx by simp
  have T: "HND_tmp_partial A tmp = ?tmp3"
    unfolding HND_tmp_partial_def Let_def by (rule refl)
  have S: "?S ((bx, by), (tx', ty')) = HND_chunk_fold A by bx tx'"
    if "tx' < arg_bdx A" for bx "by" tx' ty'
    using HND_block_partial_fold [OF wf that] by simp
  have len: "length (so (HND_chunk_fold A h' c' tx')) = ?v"
    and um: "sm (HND_chunk_fold A h' c' tx') = sm (HND_chunk_fold A h' c' 0)"
    and ud: "sd (HND_chunk_fold A h' c' tx') = sd (HND_chunk_fold A h' c' 0)"
    if "tx' < arg_bdx A" for h' c' tx'
    unfolding HND_chunk_fold_def using HND_fold_uniform [OF that] by simp_all
  have mem: "((c, h), (tx, 0)) \<in> set (HND_grid A)"
    using h c tx bdy by (simp add: HND_grid_mem)
  have md_hi: "arg_gridDim_y A * arg_gridDim_x A * arg_head_dim A \<le> HND_tmp_md A h' c' + e"
    for h' c' e by (simp add: HND_tmp_md_def)
  have o_cell: "?tmp3 (HND_tmp_o A h c tx + i) = Fin (so (HND_chunk_fold A h c tx) ! i)"
    if i: "i < ?v" for i
  proof -
    let ?a = "HND_tmp_o A h c tx + i"
    have lt: "?a < arg_gridDim_y A * arg_gridDim_x A * arg_head_dim A"
      by (rule HND_tmp_o_less [OF D h c tx i])
    have f3: "?tmp3 ?a = ?tmp2 ?a"
    proof (rule block_store_cell_frame, intro ballI)
      fix g :: "(nat \<times> nat) \<times> (nat \<times> nat)"
      obtain bx "by" t where g: "g = ((bx, by), t)" by (metis surj_pair)
      show "?dd g \<noteq> ?a" using md_hi [of "by" bx 1] lt by (simp add: g)
    qed
    have f2: "?tmp2 ?a = ?tmp1 ?a"
    proof (rule block_store_cell_frame, intro ballI)
      fix g :: "(nat \<times> nat) \<times> (nat \<times> nat)"
      obtain bx "by" t where g: "g = ((bx, by), t)" by (metis surj_pair)
      show "?dm g \<noteq> ?a" using md_hi [of "by" bx 0] lt by (simp add: g)
    qed
    have uniq: "\<forall>g\<in>set (HND_grid A). ?do g \<le> ?a \<longrightarrow> ?a < ?do g + length (so (?S g))
        \<longrightarrow> so (?S g) ! (?a - ?do g) = so (?S ((c, h), (tx, 0))) ! (?a - ?do ((c, h), (tx, 0)))"
    proof (intro ballI impI)
      fix g assume gm: "g \<in> set (HND_grid A)" and lo: "?do g \<le> ?a"
        and hi: "?a < ?do g + length (so (?S g))"
      obtain bx "by" tx' ty' where g: "g = ((bx, by), (tx', ty'))" by (metis surj_pair)
      have b: "bx < arg_gridDim_x A" "tx' < arg_bdx A" using gm g by (simp_all add: HND_grid_mem)
      define r where "r = ?a - ?do g"
      have r: "r < ?v" "HND_tmp_o A h c tx + i = HND_tmp_o A by bx tx' + r"
        using lo hi len [OF b(2)] S [OF b(2)] by (simp_all add: r_def g)
      have "h = by \<and> c = bx \<and> tx = tx' \<and> i = r"
        by (rule HND_tmp_o_inj [OF D c b(1) tx b(2) i r(1) r(2)])
      then show "so (?S g) ! (?a - ?do g)
          = so (?S ((c, h), (tx, 0))) ! (?a - ?do ((c, h), (tx, 0)))"
        using S [OF tx] by (simp add: g)
    qed
    have lo: "?do ((c, h), (tx, 0)) \<le> ?a"
      and hi: "?a < ?do ((c, h), (tx, 0)) + length (so (?S ((c, h), (tx, 0))))"
      using i len [OF tx] S [OF tx] by simp_all
    have "?tmp1 ?a = Fin (so (?S ((c, h), (tx, 0))) ! (?a - ?do ((c, h), (tx, 0))))"
      by (rule block_store_hit [where dst = ?do and vecs = "\<lambda>g. so (?S g)"
            and t = "((c, h), (tx, 0))", OF mem lo hi uniq])
    then show ?thesis using f3 f2 S [OF tx] by simp
  qed
  show "fvec_load ?v (HND_tmp_partial A tmp) (HND_tmp_o A h c tx) = so (HND_chunk_fold A h c tx)"
    unfolding T using o_cell by (intro fvec_load_stored len [OF tx]) simp
  have m_cell: "?tmp2 (HND_tmp_md A h c) = sm (HND_chunk_fold A h c tx)"
  proof -
    have hit: "?dm ((c, h), (tx, 0)) = HND_tmp_md A h c" by simp
    have uniq: "\<forall>g\<in>set (HND_grid A). ?dm g = HND_tmp_md A h c
        \<longrightarrow> sm (?S g) = sm (?S ((c, h), (tx, 0)))"
    proof (intro ballI impI)
      fix g assume gm: "g \<in> set (HND_grid A)" and e: "?dm g = HND_tmp_md A h c"
      obtain bx "by" tx' ty' where g: "g = ((bx, by), (tx', ty'))" by (metis surj_pair)
      have b: "bx < arg_gridDim_x A" "tx' < arg_bdx A" using gm g by (simp_all add: HND_grid_mem)
      have "HND_tmp_md A by bx + 0 = HND_tmp_md A h c + 0" using e by (simp add: g)
      then have "by = h \<and> bx = c \<and> (0::nat) = 0"
        by (intro HND_tmp_md_inj [OF b(1) c]) simp_all
      then show "sm (?S g) = sm (?S ((c, h), (tx, 0)))"
        using S [OF tx] S [OF b(2)] um [OF tx] um [OF b(2)] by (simp add: g)
    qed
    have "?tmp2 (HND_tmp_md A h c) = sm (?S ((c, h), (tx, 0)))"
      by (rule block_store_cell_hit [where dst = ?dm and vals = "\<lambda>g. sm (?S g)"
            and t = "((c, h), (tx, 0))", OF mem hit uniq])
    then show ?thesis using S [OF tx] by simp
  qed
  show "HND_tmp_partial A tmp (HND_tmp_md A h c) = sm (HND_chunk_fold A h c tx)"
    unfolding T
  proof -
    have "?tmp3 (HND_tmp_md A h c) = ?tmp2 (HND_tmp_md A h c)"
    proof (rule block_store_cell_frame, intro ballI)
      fix g assume gm: "g \<in> set (HND_grid A)"
      obtain bx "by" tx' ty' where g: "g = ((bx, by), (tx', ty'))" by (metis surj_pair)
      have b: "bx < arg_gridDim_x A" using gm g by (simp add: HND_grid_mem)
      have "HND_tmp_md A by bx + 1 \<noteq> HND_tmp_md A h c + 0"
        using HND_tmp_md_inj [OF b c, of 1 0 "by" h] by auto
      then show "?dd g \<noteq> HND_tmp_md A h c" by (simp add: g)
    qed
    then show "?tmp3 (HND_tmp_md A h c) = sm (HND_chunk_fold A h c tx)"
      using m_cell by simp
  qed
  show "fin_of (HND_tmp_partial A tmp (HND_tmp_md A h c + 1)) = sd (HND_chunk_fold A h c tx)"
    unfolding T
  proof -
    have hit: "?dd ((c, h), (tx, 0)) = HND_tmp_md A h c + 1" by simp
    have uniq: "\<forall>g\<in>set (HND_grid A). ?dd g = HND_tmp_md A h c + 1
        \<longrightarrow> Fin (sd (?S g)) = Fin (sd (?S ((c, h), (tx, 0))))"
    proof (intro ballI impI)
      fix g assume gm: "g \<in> set (HND_grid A)" and e: "?dd g = HND_tmp_md A h c + 1"
      obtain bx "by" tx' ty' where g: "g = ((bx, by), (tx', ty'))" by (metis surj_pair)
      have b: "bx < arg_gridDim_x A" "tx' < arg_bdx A" using gm g by (simp_all add: HND_grid_mem)
      have "HND_tmp_md A by bx + 1 = HND_tmp_md A h c + 1" using e by (simp add: g)
      then have "by = h \<and> bx = c \<and> (1::nat) = 1"
        by (intro HND_tmp_md_inj [OF b(1) c]) simp_all
      then show "Fin (sd (?S g)) = Fin (sd (?S ((c, h), (tx, 0))))"
        using S [OF tx] S [OF b(2)] ud [OF tx] ud [OF b(2)] by (simp add: g)
    qed
    have "?tmp3 (HND_tmp_md A h c + 1) = Fin (sd (?S ((c, h), (tx, 0))))"
      by (rule block_store_cell_hit [where dst = ?dd and vals = "\<lambda>g. Fin (sd (?S g))"
            and t = "((c, h), (tx, 0))", OF mem hit uniq])
    then show "fin_of (?tmp3 (HND_tmp_md A h c + 1)) = sd (HND_chunk_fold A h c tx)"
      using S [OF tx] by simp
  qed
qed

lemma foldl_if_filter:
  "foldl (\<lambda>s b. if P (f b) then g s (f b) else s) a bs = foldl g a (filter P (map f bs))"
  by (induction bs rule: rev_induct) simp_all



lemma set_lane_positions_less:
  "c \<in> set (lane_positions 0 C stride lane) \<Longrightarrow> c < C"
  by (simp add: lane_positions_def)

lemma HND_global_merge_all:
  assumes wf: "HND_wf A" and h: "h < arg_gridDim_y A" and tx: "tx < arg_bdx A"
  shows "HND_global_merge A (HND_tmp_partial A tmp) h (tx, ty)
       = merge_all (arg_vec_size A)
           (map (\<lambda>c. HND_chunk_fold A h c tx)
              (lane_positions 0 (arg_gridDim_x A) (arg_bdy A) ty))"
proof -
  let ?T = "HND_tmp_partial A tmp" and ?v = "arg_vec_size A" and ?C = "arg_gridDim_x A"
  have ld: "\<lparr>so = fvec_load ?v ?T (HND_tmp_o A h c tx), sm = ?T (HND_tmp_md A h c),
             sd = fin_of (?T (HND_tmp_md A h c + 1))\<rparr> = HND_chunk_fold A h c tx"
    if "c < ?C" for c
    using HND_tmp_partial_read [OF wf h that tx, of tmp] by simp
  have "HND_global_merge A ?T h (tx, ty)
      = foldl (\<lambda>s b. if b * arg_bdy A + ty < ?C
                       then merge s (HND_chunk_fold A h (b * arg_bdy A + ty) tx) else s)
          (init ?v) [0 ..< (?C + arg_bdy A - 1) div arg_bdy A]"
    unfolding HND_global_merge_def Let_def prod.case
  proof (rule foldl_cong [OF refl refl])
    fix s b
    show "(if b * arg_bdy A + ty < ?C
           then merge s \<lparr>so = fvec_load ?v ?T (HND_tmp_o A h (b * arg_bdy A + ty) tx),
                  sm = ?T (HND_tmp_md A h (b * arg_bdy A + ty)),
                  sd = fin_of (?T (HND_tmp_md A h (b * arg_bdy A + ty) + 1))\<rparr>
           else s)
        = (if b * arg_bdy A + ty < ?C
           then merge s (HND_chunk_fold A h (b * arg_bdy A + ty) tx) else s)"
    proof (cases "b * arg_bdy A + ty < ?C")
      case True
      show ?thesis by (simp only: ld [OF True])
    next
      case False
      then show ?thesis by simp
    qed
  qed
  also have "\<dots> = foldl (\<lambda>s c. merge s (HND_chunk_fold A h c tx)) (init ?v)
      (filter (\<lambda>c. c < ?C) (map (\<lambda>b. b * arg_bdy A + ty)
         [0 ..< (?C + arg_bdy A - 1) div arg_bdy A]))"
    by (rule foldl_if_filter)
  also have "\<dots> = merge_all ?v (map (\<lambda>c. HND_chunk_fold A h c tx)
      (lane_positions 0 ?C (arg_bdy A) ty))"
    by (simp add: merge_all_def foldl_map lane_positions_def)
  finally show ?thesis .
qed


lemma NHD_threads_mem:
  "(tx, ty, tz) \<in> set (NHD_threads A) \<longleftrightarrow> tx < arg_bdx A \<and> ty < arg_bdy A \<and> tz < arg_bdz A"
  by (auto simp: NHD_threads_def)

lemma NHD_row_less:
  fixes ty tz bdy bdz :: nat
  assumes "ty < bdy" and "tz < bdz"
  shows "tz * bdy + ty < bdz * bdy"
proof -
  have "tz * bdy + ty < tz * bdy + bdy" using assms(1) by simp
  also have "\<dots> = (tz + 1) * bdy" by simp
  also have "\<dots> \<le> bdz * bdy" using assms(2) by (intro mult_le_mono1) simp
  finally show ?thesis .
qed

lemma NHD_load_tile_row:
  assumes wf: "NHD_wf A" and s: "s < 4" and ty: "ty < arg_bdy A" and tz: "tz < arg_bdz A"
    and g: "\<forall>tx<arg_bdx A. pred_guard (tx, ty, tz) \<and> kv_idx (tx, ty, tz) = p"
  shows "row_eq (arg_head_dim A) (NHD_load_tile A blockIdx_y src_mem s pred_guard kv_idx smem)
           (NHD_kv_shared_offset A ! s + (tz * arg_bdy A + ty) * arg_head_dim A)
           src_mem ((p * NHD_num_heads A + (blockIdx_y * arg_bdy A + ty)) * arg_head_dim A)"
  unfolding row_eq_def
proof (intro allI impI)
  fix i assume i: "i < arg_head_dim A"
  let ?v = "arg_vec_size A" and ?D = "arg_head_dim A" and ?by = "arg_bdy A"
  let ?off = "NHD_kv_shared_offset A ! s"
  let ?dst = "\<lambda>(tx, ty, tz). ?off + (tz * ?by + ty) * ?D + tx * ?v"
  let ?src = "\<lambda>(tx, ty, tz). (kv_idx (tx, ty, tz) * NHD_num_heads A
                + (blockIdx_y * ?by + ty)) * ?D + tx * ?v"
  have D: "arg_bdx A * ?v = ?D" using wf by (simp add: NHD_wf_def)
  define tx where "tx = i div ?v"
  define rm where "rm = i mod ?v"
  have c: "tx < arg_bdx A" "i = tx * ?v + rm" "rm < ?v"
    using col_split [of i "arg_bdx A" ?v, unfolded D, OF i] by (simp_all add: tx_def rm_def)
  let ?a = "?off + (tz * ?by + ty) * ?D + i"
  have mem: "(tx, ty, tz) \<in> set (NHD_threads A)"
    using c(1) ty tz by (simp add: NHD_threads_mem)
  have gd: "pred_guard (tx, ty, tz)" and kv: "kv_idx (tx, ty, tz) = p" using g c(1) by simp_all
  have lo: "?dst (tx, ty, tz) \<le> ?a" and hi: "?a < ?dst (tx, ty, tz) + ?v"
    and df: "?a - ?dst (tx, ty, tz) = rm"
    using c(3) by (simp_all add: c(2))
  have uniq: "\<forall>t'\<in>set (NHD_threads A). pred_guard t' \<longrightarrow> ?dst t' \<le> ?a \<longrightarrow> ?a < ?dst t' + ?v
           \<longrightarrow> ?src t' + (?a - ?dst t') = ?src (tx, ty, tz) + (?a - ?dst (tx, ty, tz))"
  proof (intro ballI impI)
    fix t' assume t': "t' \<in> set (NHD_threads A)" and lo': "?dst t' \<le> ?a"
      and hi': "?a < ?dst t' + ?v"
    obtain tx' ty' tz' where t'_eq: "t' = (tx', ty', tz')" by (cases t')
    have b: "tx' < arg_bdx A" "ty' < ?by" "tz' < arg_bdz A"
      using t' t'_eq by (simp_all add: NHD_threads_mem)
    define r where "r = ?a - ?dst t'"
    have r: "r < ?v" "?a = ?off + (tz' * ?by + ty') * ?D + tx' * ?v + r"
      using lo' hi' by (simp_all add: r_def t'_eq)
    have "tx' * ?v + r < ?D"
    proof -
      have "tx' * ?v + r < tx' * ?v + ?v" using r(1) by simp
      also have "\<dots> = (tx' + 1) * ?v" by simp
      also have "\<dots> \<le> arg_bdx A * ?v" using b(1) by (intro mult_le_mono1) simp
      finally show ?thesis using D by simp
    qed
    moreover have "(tz * ?by + ty) * ?D + i = (tz' * ?by + ty') * ?D + (tx' * ?v + r)"
      using r(2) by simp
    ultimately have e: "tz * ?by + ty = tz' * ?by + ty'" "i = tx' * ?v + r"
      using pack_inj [of i ?D "tx' * ?v + r" "tz * ?by + ty" "tz' * ?by + ty'"] i by simp_all
    have e1: "tz = tz'" "ty = ty'"
      using pack_inj [OF ty b(2) e(1)] by simp_all
    have "tx' * ?v + r = tx * ?v + rm" using e(2) c(2) by simp
    then have "tx' = tx" "r = rm"
      using pack_inj [of r ?v rm tx' tx] r(1) c(3) by simp_all
    then show "?src t' + (?a - ?dst t') = ?src (tx, ty, tz) + (?a - ?dst (tx, ty, tz))"
      using e1 by (simp add: t'_eq)
  qed
  have "NHD_load_tile A blockIdx_y src_mem s pred_guard kv_idx smem ?a
          = src_mem (?src (tx, ty, tz) + (?a - ?dst (tx, ty, tz)))"
    unfolding NHD_load_tile_def
    by (rule bma_hit [OF mem gd lo hi uniq])
  also have "?src (tx, ty, tz) + (?a - ?dst (tx, ty, tz))
               = (p * NHD_num_heads A + (blockIdx_y * ?by + ty)) * ?D + i"
    unfolding df using kv c(2) by simp
  finally show "NHD_load_tile A blockIdx_y src_mem s pred_guard kv_idx smem ?a
          = src_mem ((p * NHD_num_heads A + (blockIdx_y * ?by + ty)) * ?D + i)" .
qed

lemma NHD_k_vec_row_index:
  "NHD_k_vec mode rot D v bdy smem emb offs kv ci tx ty tz
     = HND_k_vec mode rot D v smem emb offs kv ci tx (tz * bdy + ty)"
  by (simp add: NHD_k_vec_def HND_k_vec_def)

lemma NHD_compute_qk_row_index:
  "NHD_compute_qk fo mode rot D v bdx bdy smem qv emb offs kv ci sc ty tz
     = HND_compute_qk fo mode rot D v bdx smem qv emb offs kv ci sc (tz * bdy + ty)"
  by (simp add: NHD_compute_qk_def HND_compute_qk_def NHD_k_vec_row_index)

lemma NHD_update_partial_state_row_index:
  "NHD_update_partial_state D v bdy smem x offs ci pg s tx ty tz
     = HND_update_partial_state D v smem x offs ci pg s tx (tz * bdy + ty)"
  by (simp add: NHD_update_partial_state_def HND_update_partial_state_def)

lemma NHD_compute_qk_row:
  assumes "arg_bdx A * arg_vec_size A = arg_head_dim A"
    and "row_eq (arg_head_dim A) smem (offs ! ci + (tz * arg_bdy A + ty) * arg_head_dim A) g b"
  shows "NHD_compute_qk fo mode rot (arg_head_dim A) (arg_vec_size A) (arg_bdx A) (arg_bdy A) smem
           qv emb offs kv ci sc ty tz
       = NHD_compute_qk fo mode rot (arg_head_dim A) (arg_vec_size A) (arg_bdx A) (arg_bdy A) g
           qv emb [b] kv 0 sc 0 0"
  unfolding NHD_compute_qk_row_index
  using HND_compute_qk_row [OF assms] by simp

lemma NHD_update_partial_state_row:
  assumes "arg_bdx A * arg_vec_size A = arg_head_dim A" and "tx < arg_bdx A"
    and "row_eq (arg_head_dim A) smem (offs ! ci + (tz * arg_bdy A + ty) * arg_head_dim A) g b"
  shows "NHD_update_partial_state (arg_head_dim A) (arg_vec_size A) (arg_bdy A) smem x offs ci
           pg s tx ty tz
       = (if pg then merge_xv s x (vec_load (arg_vec_size A) g (b + tx * arg_vec_size A))
          else s)"
  unfolding NHD_update_partial_state_row_index
  by (rule HND_update_partial_state_row [OF assms])

lemma NHD_offset_nth:
  "s < 4 \<Longrightarrow> NHD_kv_shared_offset A ! s = s * (arg_bdz A * arg_bdy A * arg_head_dim A)"
  by (simp add: NHD_kv_shared_offset_def kv_shared_offset_nth)

lemma NHD_load_tile_frame:
  assumes wf: "NHD_wf A" and s: "s < 4" and s': "s' < 4" and ne: "s \<noteq> s'"
    and r: "r < arg_bdz A * arg_bdy A * arg_head_dim A"
  shows "NHD_load_tile A blockIdx_y src_mem s pred_guard kv_idx smem
           (NHD_kv_shared_offset A ! s' + r)
       = smem (NHD_kv_shared_offset A ! s' + r)"
  unfolding NHD_load_tile_def
proof (rule bma_frame, intro ballI impI)
  fix t assume t: "t \<in> set (NHD_threads A)"
  obtain tx ty tz where t_eq: "t = (tx, ty, tz)" by (cases t)
  have b: "tx < arg_bdx A" "ty < arg_bdy A" "tz < arg_bdz A"
    using t t_eq by (simp_all add: NHD_threads_mem)
  let ?T = "arg_bdz A * arg_bdy A * arg_head_dim A"
  let ?row = "tz * arg_bdy A + ty"
  have D: "arg_bdx A * arg_vec_size A = arg_head_dim A" using wf by (simp add: NHD_wf_def)
  have row: "?row < arg_bdz A * arg_bdy A" by (rule NHD_row_less [OF b(2,3)])
  show "\<not> ((case t of (tx, ty, tz) \<Rightarrow> NHD_kv_shared_offset A ! s
               + (tz * arg_bdy A + ty) * arg_head_dim A
               + tx * arg_vec_size A) \<le> NHD_kv_shared_offset A ! s' + r
          \<and> NHD_kv_shared_offset A ! s' + r
             < (case t of (tx, ty, tz) \<Rightarrow> NHD_kv_shared_offset A ! s
                  + (tz * arg_bdy A + ty) * arg_head_dim A
                  + tx * arg_vec_size A) + arg_vec_size A)"
  proof
    assume h: "(case t of (tx, ty, tz) \<Rightarrow> NHD_kv_shared_offset A ! s
               + (tz * arg_bdy A + ty) * arg_head_dim A
               + tx * arg_vec_size A) \<le> NHD_kv_shared_offset A ! s' + r
          \<and> NHD_kv_shared_offset A ! s' + r
             < (case t of (tx, ty, tz) \<Rightarrow> NHD_kv_shared_offset A ! s
                  + (tz * arg_bdy A + ty) * arg_head_dim A
                  + tx * arg_vec_size A) + arg_vec_size A"
    define L where "L = s * ?T + ?row * arg_head_dim A + tx * arg_vec_size A"
    define X where "X = s' * ?T + r"
    define q where "q = X - L"
    have "L \<le> X" "X < L + arg_vec_size A"
      using h by (simp_all add: t_eq NHD_offset_nth s s' L_def X_def)
    then have "q < arg_vec_size A" "X = L + q"
      by (simp_all add: q_def)
    then have q: "q < arg_vec_size A"
      "s' * ?T + r = s * ?T + (?row * arg_head_dim A + (tx * arg_vec_size A + q))"
      by (simp_all add: L_def X_def)
    have "tx * arg_vec_size A + q < arg_head_dim A"
      using lane_in_row [OF b(1), of "arg_vec_size A"] q(1) D by simp
    then have "?row * arg_head_dim A + (tx * arg_vec_size A + q) < ?T"
      using row_in_tile [OF row, of "Suc (tx * arg_vec_size A + q)" "arg_head_dim A"] by simp
    then show False
      using slot_disjoint [OF ne _ r, of "?row * arg_head_dim A + (tx * arg_vec_size A + q)"]
        q(2)
      by simp
  qed
qed

lemma NHD_load_tile_row_frame:
  assumes wf: "NHD_wf A" and s: "s < 4" and s': "s' < 4" and ne: "s \<noteq> s'"
    and ty: "ty < arg_bdy A" and tz: "tz < arg_bdz A"
    and re: "row_eq (arg_head_dim A) smem
               (NHD_kv_shared_offset A ! s' + (tz * arg_bdy A + ty) * arg_head_dim A) g b"
  shows "row_eq (arg_head_dim A) (NHD_load_tile A blockIdx_y src_mem s pred_guard kv_idx smem)
           (NHD_kv_shared_offset A ! s' + (tz * arg_bdy A + ty) * arg_head_dim A) g b"
  unfolding row_eq_def
proof (intro allI impI)
  fix i assume i: "i < arg_head_dim A"
  let ?row = "tz * arg_bdy A + ty"
  have row: "?row < arg_bdz A * arg_bdy A" by (rule NHD_row_less [OF ty tz])
  have "?row * arg_head_dim A + i < arg_bdz A * arg_bdy A * arg_head_dim A"
    using row_in_tile [OF row, of "Suc i" "arg_head_dim A"] i by simp
  then have "NHD_load_tile A blockIdx_y src_mem s pred_guard kv_idx smem
           (NHD_kv_shared_offset A ! s' + (?row * arg_head_dim A + i))
       = smem (NHD_kv_shared_offset A ! s' + (?row * arg_head_dim A + i))"
    by (rule NHD_load_tile_frame [OF wf s s' ne])
  then show "NHD_load_tile A blockIdx_y src_mem s pred_guard kv_idx smem
           (NHD_kv_shared_offset A ! s' + ?row * arg_head_dim A + i) = g (b + i)"
    using re i by (simp add: row_eq_def add.assoc)
qed

lemma NHD_compute_stages_ref:
  assumes wf: "NHD_wf A"
    and c: "r_compute_stage_idx R \<in> {0, 2}"
  shows "tx < arg_bdx A \<Longrightarrow>
         (cpg (tx, ty, tz) \<longrightarrow>
          row_eq (arg_head_dim A) smem_qk
            (NHD_kv_shared_offset A ! r_compute_stage_idx R
               + (tz * arg_bdy A + ty) * arg_head_dim A) (arg_k A)
            ((kvi (tx, ty, tz) * NHD_num_heads A + (blockIdx_y * arg_bdy A + ty))
               * arg_head_dim A)
          \<and> row_eq (arg_head_dim A) smem_upd
            (NHD_kv_shared_offset A ! (r_compute_stage_idx R + 1)
               + (tz * arg_bdy A + ty) * arg_head_dim A)
            (arg_v A)
            ((kvi (tx, ty, tz) * NHD_num_heads A + (blockIdx_y * arg_bdy A + ty))
               * arg_head_dim A)) \<Longrightarrow>
         r_s_partial (NHD_compute_stages A blockIdx_y kvi cpg smem_qk smem_upd R) (tx, ty, tz)
       = (if cpg (tx, ty, tz)
          then NHD_fold_in A (blockIdx_y * arg_bdy A + ty) tx (r_s_partial R (tx, ty, tz))
                 (kvi (tx, ty, tz))
          else r_s_partial R (tx, ty, tz))"
    and "r_compute_stage_idx (NHD_compute_stages A blockIdx_y kvi cpg smem_qk smem_upd R)
       = (r_compute_stage_idx R + 2) mod 4"
    and "r_copy_stage_idx (NHD_compute_stages A blockIdx_y kvi cpg smem_qk smem_upd R)
       = r_copy_stage_idx R"
    and "r_smem (NHD_compute_stages A blockIdx_y kvi cpg smem_qk smem_upd R) = smem_upd"
proof -
  let ?h = "blockIdx_y * arg_bdy A + ty"
  have D: "arg_bdx A * arg_vec_size A = arg_head_dim A" using wf by (simp add: NHD_wf_def)
  have c1: "(r_compute_stage_idx R + 1) mod stages_count = r_compute_stage_idx R + 1"
    using c by (auto simp: stages_count_def)
  show "r_compute_stage_idx (NHD_compute_stages A blockIdx_y kvi cpg smem_qk smem_upd R)
       = (r_compute_stage_idx R + 2) mod 4"
    using c by (auto simp: NHD_compute_stages_def Let_def stages_count_def)
  show "r_copy_stage_idx (NHD_compute_stages A blockIdx_y kvi cpg smem_qk smem_upd R)
       = r_copy_stage_idx R"
    by (simp add: NHD_compute_stages_def Let_def)
  show "r_smem (NHD_compute_stages A blockIdx_y kvi cpg smem_qk smem_upd R) = smem_upd"
    by (simp add: NHD_compute_stages_def Let_def)
  assume tx: "tx < arg_bdx A"
    and rows: "cpg (tx, ty, tz) \<longrightarrow>
          row_eq (arg_head_dim A) smem_qk
            (NHD_kv_shared_offset A ! r_compute_stage_idx R
               + (tz * arg_bdy A + ty) * arg_head_dim A) (arg_k A)
            ((kvi (tx, ty, tz) * NHD_num_heads A + (blockIdx_y * arg_bdy A + ty))
               * arg_head_dim A)
          \<and> row_eq (arg_head_dim A) smem_upd
            (NHD_kv_shared_offset A ! (r_compute_stage_idx R + 1)
               + (tz * arg_bdy A + ty) * arg_head_dim A)
            (arg_v A)
            ((kvi (tx, ty, tz) * NHD_num_heads A + (blockIdx_y * arg_bdy A + ty))
               * arg_head_dim A)"
  show "r_s_partial (NHD_compute_stages A blockIdx_y kvi cpg smem_qk smem_upd R) (tx, ty, tz)
       = (if cpg (tx, ty, tz)
          then NHD_fold_in A ?h tx (r_s_partial R (tx, ty, tz)) (kvi (tx, ty, tz))
          else r_s_partial R (tx, ty, tz))"
  proof (cases "cpg (tx, ty, tz)")
    case False
    then show ?thesis
      by (simp add: NHD_compute_stages_def Let_def NHD_update_partial_state_def)
  next
    case True
    note r = rows [rule_format, OF True]
    have q: "NHD_compute_qk (arg_float A) (arg_rotary_mode A) (arg_apply_rotary A) (arg_head_dim A)
               (arg_vec_size A) (arg_bdx A) (arg_bdy A) smem_qk (q_vec_of A ?h)
               (rotary_emb_of A)
               (NHD_kv_shared_offset A) (kvi (tx, ty, tz)) (r_compute_stage_idx R)
               (arg_sm_scale A) ty tz
           = NHD_score A ?h (kvi (tx, ty, tz))"
      unfolding NHD_score_def by (rule NHD_compute_qk_row [OF D r [THEN conjunct1]])
    have u: "NHD_update_partial_state (arg_head_dim A) (arg_vec_size A) (arg_bdy A) smem_upd x
               (NHD_kv_shared_offset A) (r_compute_stage_idx R + 1) True s tx ty tz
           = merge_xv s x (NHD_value A ?h (kvi (tx, ty, tz)) tx)" for x s
      unfolding NHD_value_def
      using NHD_update_partial_state_row [OF D tx r [THEN conjunct2], of x True s] by simp
    have c1': "Suc (r_compute_stage_idx R) mod stages_count = Suc (r_compute_stage_idx R)"
      using c1 by simp
    have u': "NHD_update_partial_state (arg_head_dim A) (arg_vec_size A) (arg_bdy A) smem_upd x
               (NHD_kv_shared_offset A) (Suc (r_compute_stage_idx R)) True s tx ty tz
           = merge_xv s x (NHD_value A ?h (kvi (tx, ty, tz)) tx)" for x s
      using u [of x s] by simp
    show ?thesis
      using True by (simp add: NHD_compute_stages_def Let_def c1' q u' NHD_fold_in_def)
  qed
qed

lemma NHD_prologue_inv:
  assumes wf: "NHD_wf A"
  shows "NHD_inv A blockIdx_y kv_chunk_idx 0 (NHD_prologue A blockIdx_y kv_chunk_idx)"
proof -
  let ?g = "\<lambda>(tx :: nat, ty :: nat, tz). tz < chunk_size_of A kv_chunk_idx"
  let ?kv = "\<lambda>(tx :: nat, ty :: nat, tz). chunk_start_of A kv_chunk_idx + tz"
  let ?smem1 = "NHD_load_tile A blockIdx_y (arg_k A) 0 ?g ?kv (arg_smem A)"
  let ?smem2 = "NHD_load_tile A blockIdx_y (arg_v A) 1 ?g ?kv ?smem1"
  have R: "NHD_prologue A blockIdx_y kv_chunk_idx
         = \<lparr>r_smem = ?smem2, r_x = (\<lambda>t. 0), r_s_partial = (\<lambda>t. init (arg_vec_size A)),
            r_copy_stage_idx = 2, r_compute_stage_idx = 0\<rparr>"
    by (simp add: NHD_prologue_def Let_def)
  have rows: "row_eq (arg_head_dim A) ?smem2
            (NHD_kv_shared_offset A ! 0 + (tz * arg_bdy A + ty) * arg_head_dim A) (arg_k A)
            (((chunk_start_of A kv_chunk_idx + tz) * NHD_num_heads A
                + (blockIdx_y * arg_bdy A + ty)) * arg_head_dim A)
          \<and> row_eq (arg_head_dim A) ?smem2
            (NHD_kv_shared_offset A ! 1 + (tz * arg_bdy A + ty) * arg_head_dim A) (arg_v A)
            (((chunk_start_of A kv_chunk_idx + tz) * NHD_num_heads A
                + (blockIdx_y * arg_bdy A + ty)) * arg_head_dim A)"
    if ty: "ty < arg_bdy A" and tz: "tz < arg_bdz A" and v: "tz < chunk_size_of A kv_chunk_idx"
    for ty tz
  proof
    have g: "\<forall>tx<arg_bdx A. ?g (tx, ty, tz)
        \<and> ?kv (tx, ty, tz) = chunk_start_of A kv_chunk_idx + tz"
      using v by simp
    have k1: "row_eq (arg_head_dim A) ?smem1
            (NHD_kv_shared_offset A ! 0 + (tz * arg_bdy A + ty) * arg_head_dim A) (arg_k A)
            (((chunk_start_of A kv_chunk_idx + tz) * NHD_num_heads A
                + (blockIdx_y * arg_bdy A + ty)) * arg_head_dim A)"
      by (rule NHD_load_tile_row [OF wf _ ty tz g]) simp
    show "row_eq (arg_head_dim A) ?smem2
            (NHD_kv_shared_offset A ! 0 + (tz * arg_bdy A + ty) * arg_head_dim A) (arg_k A)
            (((chunk_start_of A kv_chunk_idx + tz) * NHD_num_heads A
                + (blockIdx_y * arg_bdy A + ty)) * arg_head_dim A)"
      by (rule NHD_load_tile_row_frame [OF wf _ _ _ ty tz k1]) simp_all
    show "row_eq (arg_head_dim A) ?smem2
            (NHD_kv_shared_offset A ! 1 + (tz * arg_bdy A + ty) * arg_head_dim A) (arg_v A)
            (((chunk_start_of A kv_chunk_idx + tz) * NHD_num_heads A
                + (blockIdx_y * arg_bdy A + ty)) * arg_head_dim A)"
      by (rule NHD_load_tile_row [OF wf _ ty tz g]) simp
  qed
  show ?thesis
    unfolding NHD_inv_def R using rows
    by (simp add: chunk_end_eq NHD_fold_def)
qed

lemma NHD_loop_body_inv:
  assumes wf: "NHD_wf A"
    and inv: "NHD_inv A blockIdx_y kv_chunk_idx j R"
    and full: "\<forall>tz<arg_bdz A.
        chunk_start_of A kv_chunk_idx + j * arg_bdz A + tz < chunk_end_of A kv_chunk_idx"
  shows "NHD_inv A blockIdx_y kv_chunk_idx (Suc j)
           (NHD_loop_body A blockIdx_y kv_chunk_idx (Suc j) R)"
proof -
  let ?st = "chunk_start_of A kv_chunk_idx" and ?en = "chunk_end_of A kv_chunk_idx"
  let ?D = "arg_head_dim A" and ?off = "NHD_kv_shared_offset A"
  let ?c = "r_compute_stage_idx R"
  let ?pkv = "\<lambda>(tx::nat, ty::nat, tz). ?st + Suc j * arg_bdz A + tz"
  let ?ckv = "\<lambda>(tx::nat, ty::nat, tz). ?st + (Suc j - 1) * arg_bdz A + tz"
  let ?pg = "\<lambda>t. ?pkv t < ?en"
  let ?cp = "(r_copy_stage_idx R + 1) mod stages_count"
  let ?smem1 = "NHD_load_tile A blockIdx_y (arg_k A) (r_copy_stage_idx R) ?pg ?pkv (r_smem R)"
  let ?smem2 = "NHD_load_tile A blockIdx_y (arg_v A) ?cp ?pg ?pkv ?smem1"
  let ?R' = "R\<lparr>r_copy_stage_idx := (?cp + 1) mod stages_count\<rparr>"
  let ?krow = "\<lambda>ty p. (p * NHD_num_heads A + (blockIdx_y * arg_bdy A + ty)) * ?D"
  let ?row = "\<lambda>ty tz. (tz * arg_bdy A + ty) * ?D"
  have body: "NHD_loop_body A blockIdx_y kv_chunk_idx (Suc j) R
      = NHD_compute_stages A blockIdx_y ?ckv (\<lambda>t. True) ?smem1 ?smem2 ?R'"
    unfolding NHD_loop_body_def Let_def by (rule refl)
  from inv have c: "?c \<in> {0, 2}" and cp: "r_copy_stage_idx R = (?c + 2) mod 4"
    and rows: "\<And>ty tz. ty < arg_bdy A \<Longrightarrow> tz < arg_bdz A
        \<Longrightarrow> ?st + j * arg_bdz A + tz < ?en \<Longrightarrow>
        row_eq ?D (r_smem R) (?off ! ?c + ?row ty tz) (arg_k A)
          (?krow ty (?st + j * arg_bdz A + tz))
        \<and> row_eq ?D (r_smem R) (?off ! (?c + 1) + ?row ty tz) (arg_v A)
            (?krow ty (?st + j * arg_bdz A + tz))"
    and sp: "\<And>tx ty tz. tx < arg_bdx A \<Longrightarrow> ty < arg_bdy A \<Longrightarrow> tz < arg_bdz A \<Longrightarrow>
        r_s_partial R (tx, ty, tz)
          = NHD_fold A (blockIdx_y * arg_bdy A + ty) tx
              (map (\<lambda>b. ?st + b * arg_bdz A + tz) [0 ..< j])"
    unfolding NHD_inv_def by blast+
  have c': "r_compute_stage_idx ?R' \<in> {0, 2}" using c by simp
  have copy0: "r_copy_stage_idx R < 4" "r_copy_stage_idx R \<noteq> ?c"
    "r_copy_stage_idx R \<noteq> ?c + 1"
    and copy1: "?cp < 4" "?cp \<noteq> ?c + 1" "?cp \<noteq> r_copy_stage_idx R"
      "?cp = r_copy_stage_idx R + 1"
    and c4: "?c < 4" "?c + 1 < 4"
    and copy2: "(?cp + 1) mod stages_count = ?c"
    using c cp by (auto simp: stages_count_def)
  note cs1 = NHD_compute_stages_ref(1) [OF wf c', where cpg = "\<lambda>t. True"
      and smem_qk = ?smem1 and blockIdx_y = blockIdx_y and kvi = ?ckv and smem_upd = ?smem2]
  note cs2 = NHD_compute_stages_ref(2-4) [OF wf c', where cpg = "\<lambda>t. True"
      and smem_qk = ?smem1 and blockIdx_y = blockIdx_y and kvi = ?ckv and smem_upd = ?smem2]
  have old_rows: "row_eq ?D ?smem1 (?off ! ?c + ?row ty tz) (arg_k A)
          (?krow ty (?st + j * arg_bdz A + tz))
        \<and> row_eq ?D ?smem2 (?off ! (?c + 1) + ?row ty tz) (arg_v A)
          (?krow ty (?st + j * arg_bdz A + tz))"
    if ty: "ty < arg_bdy A" and tz: "tz < arg_bdz A" for ty tz
  proof
    note r = rows [OF ty tz full [rule_format, OF tz]]
    show "row_eq ?D ?smem1 (?off ! ?c + ?row ty tz) (arg_k A)
        (?krow ty (?st + j * arg_bdz A + tz))"
      by (rule NHD_load_tile_row_frame [OF wf copy0(1) c4(1) copy0(2) ty tz r [THEN conjunct1]])
    have "row_eq ?D ?smem1 (?off ! (?c + 1) + ?row ty tz) (arg_v A)
        (?krow ty (?st + j * arg_bdz A + tz))"
      by (rule NHD_load_tile_row_frame [OF wf copy0(1) c4(2) copy0(3) ty tz r [THEN conjunct2]])
    then show "row_eq ?D ?smem2 (?off ! (?c + 1) + ?row ty tz) (arg_v A)
        (?krow ty (?st + j * arg_bdz A + tz))"
      by (rule NHD_load_tile_row_frame [OF wf copy1(1) c4(2) copy1(2) ty tz])
  qed
  have new_rows: "row_eq ?D ?smem2 (?off ! r_copy_stage_idx R + ?row ty tz) (arg_k A)
          (?krow ty (?st + Suc j * arg_bdz A + tz))
        \<and> row_eq ?D ?smem2 (?off ! ?cp + ?row ty tz) (arg_v A)
          (?krow ty (?st + Suc j * arg_bdz A + tz))"
    if ty: "ty < arg_bdy A" and tz: "tz < arg_bdz A"
      and v: "?st + Suc j * arg_bdz A + tz < ?en" for ty tz
  proof
    have g: "\<forall>tx<arg_bdx A. ?pg (tx, ty, tz)
        \<and> ?pkv (tx, ty, tz) = ?st + Suc j * arg_bdz A + tz"
      using v by simp
    have "row_eq ?D ?smem1 (?off ! r_copy_stage_idx R + ?row ty tz) (arg_k A)
          (?krow ty (?st + Suc j * arg_bdz A + tz))"
      by (rule NHD_load_tile_row [OF wf copy0(1) ty tz g])
    then show "row_eq ?D ?smem2 (?off ! r_copy_stage_idx R + ?row ty tz) (arg_k A)
          (?krow ty (?st + Suc j * arg_bdz A + tz))"
      by (rule NHD_load_tile_row_frame [OF wf copy1(1) copy0(1) copy1(3) ty tz])
    show "row_eq ?D ?smem2 (?off ! ?cp + ?row ty tz) (arg_v A)
          (?krow ty (?st + Suc j * arg_bdz A + tz))"
      by (rule NHD_load_tile_row [OF wf copy1(1) ty tz g])
  qed
  have s_new: "r_s_partial (NHD_loop_body A blockIdx_y kv_chunk_idx (Suc j) R) (tx, ty, tz)
      = NHD_fold A (blockIdx_y * arg_bdy A + ty) tx
          (map (\<lambda>b. ?st + b * arg_bdz A + tz) [0 ..< Suc j])"
    if tx: "tx < arg_bdx A" and ty: "ty < arg_bdy A" and tz: "tz < arg_bdz A" for tx ty tz
  proof -
    have "r_s_partial (NHD_compute_stages A blockIdx_y ?ckv (\<lambda>t. True) ?smem1 ?smem2 ?R')
            (tx, ty, tz)
        = NHD_fold_in A (blockIdx_y * arg_bdy A + ty) tx (r_s_partial ?R' (tx, ty, tz))
            (?ckv (tx, ty, tz))"
      using cs1 [OF tx, of tz ty] old_rows [OF ty tz] by simp
    then show ?thesis
      unfolding body using sp [OF tx ty tz] by (simp add: NHD_fold_def)
  qed
  have c_new: "r_compute_stage_idx (NHD_loop_body A blockIdx_y kv_chunk_idx (Suc j) R)
      = r_copy_stage_idx R"
    unfolding body using cs2(1) cp by simp
  have cp_new: "r_copy_stage_idx (NHD_loop_body A blockIdx_y kv_chunk_idx (Suc j) R) = ?c"
    unfolding body using cs2(2) copy2 by simp
  have sm_new: "r_smem (NHD_loop_body A blockIdx_y kv_chunk_idx (Suc j) R) = ?smem2"
    unfolding body using cs2(3) by simp
  have c_in: "r_copy_stage_idx R \<in> {0, 2}" "?c = (r_copy_stage_idx R + 2) mod 4"
    using c cp by auto
  show ?thesis
    unfolding NHD_inv_def c_new cp_new sm_new
    using c_in new_rows s_new copy1(4) by simp
qed

lemma NHD_loop_inv:
  fixes A :: kernel_args and kv_chunk_idx :: nat
  defines "nb \<equiv> (chunk_size_of A kv_chunk_idx + arg_bdz A - 1) div arg_bdz A"
  assumes wf: "NHD_wf A"
    and n: "Suc n \<le> (if 1 < nb then nb else 1)"
  shows "NHD_inv A blockIdx_y kv_chunk_idx n
           (foldl (\<lambda>R batch. NHD_loop_body A blockIdx_y kv_chunk_idx batch R)
              (NHD_prologue A blockIdx_y kv_chunk_idx) [1 ..< Suc n])"
  using n
proof (induction n)
  case 0
  show ?case using NHD_prologue_inv [OF wf] by simp
next
  case (Suc n)
  have bdz: "0 < arg_bdz A" using wf by (simp add: NHD_wf_def)
  have nb: "Suc (Suc n) \<le> nb" using Suc.prems by (simp split: if_splits)
  have full: "\<forall>tz<arg_bdz A.
        chunk_start_of A kv_chunk_idx + n * arg_bdz A + tz < chunk_end_of A kv_chunk_idx"
  proof (intro allI impI)
    fix tz assume "tz < arg_bdz A"
    then have "n * arg_bdz A + tz < chunk_size_of A kv_chunk_idx"
      using full_batches [OF bdz, of n "chunk_size_of A kv_chunk_idx" tz] nb
      unfolding nb_def by simp
    then show "chunk_start_of A kv_chunk_idx + n * arg_bdz A + tz < chunk_end_of A kv_chunk_idx"
      by (simp add: chunk_end_eq)
  qed
  have prev: "NHD_inv A blockIdx_y kv_chunk_idx n
           (foldl (\<lambda>R batch. NHD_loop_body A blockIdx_y kv_chunk_idx batch R)
              (NHD_prologue A blockIdx_y kv_chunk_idx) [1 ..< Suc n])"
    using Suc.IH Suc.prems by (simp split: if_splits)
  have "[1 ..< Suc (Suc n)] = [1 ..< Suc n] @ [Suc n]" by simp
  then show ?case
    using NHD_loop_body_inv [OF wf prev full] by (simp only: foldl_append foldl.simps)
qed

lemma NHD_chunk_state_fold:
  assumes wf: "NHD_wf A" and tx: "tx < arg_bdx A" and ty: "ty < arg_bdy A"
    and tz: "tz < arg_bdz A"
  shows "r_s_partial (NHD_chunk_state A blockIdx_y kv_chunk_idx) (tx, ty, tz)
       = NHD_fold A (blockIdx_y * arg_bdy A + ty) tx
           (lane_positions (chunk_start_of A kv_chunk_idx) (chunk_size_of A kv_chunk_idx)
              (arg_bdz A) tz)"
proof -
  define nb where "nb = (chunk_size_of A kv_chunk_idx + arg_bdz A - 1) div arg_bdz A"
  define B where "B = (if 1 < nb then nb else 1)"
  let ?h = "blockIdx_y * arg_bdy A + ty"
  let ?st = "chunk_start_of A kv_chunk_idx" and ?en = "chunk_end_of A kv_chunk_idx"
  let ?R = "foldl (\<lambda>R batch. NHD_loop_body A blockIdx_y kv_chunk_idx batch R)
              (NHD_prologue A blockIdx_y kv_chunk_idx) [1 ..< nb]"
  let ?ckv = "\<lambda>(tx::nat, ty::nat, tz). ?st + (B - 1) * arg_bdz A + tz"
  let ?cpg = "\<lambda>t. ?ckv t < ?en"
  have bdz: "0 < arg_bdz A" using wf by (simp add: NHD_wf_def)
  have cs_eq: "NHD_chunk_state A blockIdx_y kv_chunk_idx
      = NHD_compute_stages A blockIdx_y ?ckv ?cpg (r_smem ?R) (r_smem ?R) ?R"
    unfolding NHD_chunk_state_def Let_def nb_def B_def by (rule refl)
  have upt: "[1 ..< nb] = [1 ..< Suc (B - 1)]" unfolding B_def by auto
  have "Suc (B - 1) \<le> (if 1 < nb then nb else 1)" unfolding B_def by simp
  then have "NHD_inv A blockIdx_y kv_chunk_idx (B - 1)
      (foldl (\<lambda>R batch. NHD_loop_body A blockIdx_y kv_chunk_idx batch R)
              (NHD_prologue A blockIdx_y kv_chunk_idx) [1 ..< Suc (B - 1)])"
    unfolding nb_def by (intro NHD_loop_inv [OF wf])
  then have inv: "NHD_inv A blockIdx_y kv_chunk_idx (B - 1) ?R"
    by (simp only: upt)
  then have c: "r_compute_stage_idx ?R \<in> {0, 2}"
    and rows: "?st + (B - 1) * arg_bdz A + tz < ?en \<Longrightarrow>
        row_eq (arg_head_dim A) (r_smem ?R)
          (NHD_kv_shared_offset A ! r_compute_stage_idx ?R
             + (tz * arg_bdy A + ty) * arg_head_dim A) (arg_k A)
          (((?st + (B - 1) * arg_bdz A + tz) * NHD_num_heads A + ?h) * arg_head_dim A)
        \<and> row_eq (arg_head_dim A) (r_smem ?R)
          (NHD_kv_shared_offset A ! (r_compute_stage_idx ?R + 1)
             + (tz * arg_bdy A + ty) * arg_head_dim A)
          (arg_v A)
          (((?st + (B - 1) * arg_bdz A + tz) * NHD_num_heads A + ?h) * arg_head_dim A)"
    and sp: "r_s_partial ?R (tx, ty, tz)
          = NHD_fold A ?h tx (map (\<lambda>b. ?st + b * arg_bdz A + tz) [0 ..< B - 1])"
    unfolding NHD_inv_def using tx ty tz by blast+
  have "r_s_partial (NHD_compute_stages A blockIdx_y ?ckv ?cpg (r_smem ?R) (r_smem ?R) ?R)
          (tx, ty, tz)
      = (if ?cpg (tx, ty, tz)
         then NHD_fold_in A ?h tx (r_s_partial ?R (tx, ty, tz)) (?ckv (tx, ty, tz))
         else r_s_partial ?R (tx, ty, tz))"
    using rows by (intro NHD_compute_stages_ref(1) [OF wf c tx]) simp
  also have "\<dots> = NHD_fold A ?h tx
        (map (\<lambda>b. ?st + b * arg_bdz A + tz) [0 ..< B - 1]
         @ (if ?st + (B - 1) * arg_bdz A + tz < ?st + chunk_size_of A kv_chunk_idx
            then [?st + (B - 1) * arg_bdz A + tz] else []))"
    unfolding sp by (simp add: NHD_fold_def chunk_end_eq)
  also have "\<dots> = NHD_fold A ?h tx
           (lane_positions ?st (chunk_size_of A kv_chunk_idx) (arg_bdz A) tz)"
    using lane_positions_split [OF bdz tz, of ?st "chunk_size_of A kv_chunk_idx"]
    unfolding B_def nb_def by simp
  finally show ?thesis unfolding cs_eq .
qed

lemma double_inj:
  fixes a b :: nat
  shows "a * 2 + 1 \<noteq> b * 2" and "a * 2 = b * 2 \<Longrightarrow> a = b" and "a * 2 + 1 = b * 2 + 1 \<Longrightarrow> a = b"
  by presburger+

lemma NHD_sync_state_merge_all:
  assumes wf: "NHD_wf A" and u: "NHD_lane_uniform A s" and tx: "tx < arg_bdx A"
    and ty: "ty < arg_bdy A"
  shows "fst (NHD_sync_state A s bufs) (tx, ty, tz)
       = merge_all (arg_vec_size A) (map (\<lambda>j. s (tx, ty, j)) [0 ..< arg_bdz A])"
proof -
  let ?D = "arg_head_dim A" and ?v = "arg_vec_size A" and ?by = "arg_bdy A"
  let ?bufs = "NHD_sync_store A s bufs"
  have D: "arg_bdx A * ?v = ?D" using wf by (simp add: NHD_wf_def)
  have len: "length (so (s (tx', ty', j))) = ?v" and
    usm: "sm (s (tx', ty', j)) = sm (s (0, ty', j))"
    and usd: "sd (s (tx', ty', j)) = sd (s (0, ty', j))"
    if "tx' < arg_bdx A" "ty' < ?by" "j < arg_bdz A" for tx' ty' j
    using u that unfolding NHD_lane_uniform_def by blast+
  have o: "fvec_load ?v (fst ?bufs) ((j * ?by + ty) * ?D + tx * ?v) = so (s (tx, ty, j))"
    if j: "j < arg_bdz A" for j
  proof (rule fvec_load_stored [OF _ len [OF tx ty j]], intro allI impI)
    fix i assume i: "i < ?v"
    let ?dst = "\<lambda>(tx, ty, tz). (tz * ?by + ty) * ?D + tx * ?v"
    let ?a = "(j * ?by + ty) * ?D + tx * ?v + i"
    have mem: "(tx, ty, j) \<in> set (NHD_threads A)" using tx ty j by (simp add: NHD_threads_mem)
    have uniq: "\<forall>t'\<in>set (NHD_threads A). ?dst t' \<le> ?a \<longrightarrow> ?a < ?dst t' + length (so (s t'))
           \<longrightarrow> so (s t') ! (?a - ?dst t') = so (s (tx, ty, j)) ! (?a - ?dst (tx, ty, j))"
    proof (intro ballI impI)
      fix t' assume t': "t' \<in> set (NHD_threads A)" and lo: "?dst t' \<le> ?a"
        and hi: "?a < ?dst t' + length (so (s t'))"
      obtain tx' ty' tz' where te: "t' = (tx', ty', tz')" by (cases t')
      have b: "tx' < arg_bdx A" "ty' < ?by" "tz' < arg_bdz A"
        using t' te by (simp_all add: NHD_threads_mem)
      define r where "r = ?a - ?dst t'"
      have r: "r < ?v" "(j * ?by + ty) * ?D + tx * ?v + i = (tz' * ?by + ty') * ?D + tx' * ?v + r"
        using lo hi len [OF b] by (simp_all add: r_def te)
      have e: "j * ?by + ty = tz' * ?by + ty' \<and> tx = tx' \<and> i = r"
        by (rule lane_pack_inj [OF D tx b(1) i r(1) r(2)])
      then have "j = tz' \<and> ty = ty'"
        using pack_inj [OF ty b(2), of j tz'] by simp
      then show "so (s t') ! (?a - ?dst t') = so (s (tx, ty, j)) ! (?a - ?dst (tx, ty, j))"
        using e by (simp add: te)
    qed
    have "fst ?bufs ?a = Fin (so (s (tx, ty, j)) ! (?a - ?dst (tx, ty, j)))"
      unfolding NHD_sync_store_def fst_conv
      using i len [OF tx ty j] by (intro block_store_hit [OF mem _ _ uniq]) simp_all
    then show "fst ?bufs ((j * ?by + ty) * ?D + tx * ?v + i) = Fin (so (s (tx, ty, j)) ! i)"
      by simp
  qed
  have m: "snd ?bufs ((j * ?by + ty) * 2) = sm (s (tx, ty, j))" if j: "j < arg_bdz A" for j
  proof -
    have mem: "(tx, ty, j) \<in> set (NHD_threads A)" using tx ty j by (simp add: NHD_threads_mem)
    have fr: "\<forall>t\<in>set (NHD_threads A).
        (case t of (tx, ty, tz) \<Rightarrow> (tz * ?by + ty) * 2 + 1) \<noteq> (j * ?by + ty) * 2"
    proof
      fix t :: "nat \<times> nat \<times> nat"
      obtain tx' ty' tz' where te: "t = (tx', ty', tz')" by (cases t)
      show "(case t of (tx, ty, tz) \<Rightarrow> (tz * ?by + ty) * 2 + 1) \<noteq> (j * ?by + ty) * 2"
        using double_inj(1) [of "tz' * ?by + ty'" "j * ?by + ty"] by (simp add: te)
    qed
    have hit: "(case (tx, ty, j) of (tx, ty, tz) \<Rightarrow> (tz * ?by + ty) * 2) = (j * ?by + ty) * 2"
      by simp
    have uniq: "\<forall>t'\<in>set (NHD_threads A).
        (case t' of (tx, ty, tz) \<Rightarrow> (tz * ?by + ty) * 2) = (j * ?by + ty) * 2
        \<longrightarrow> sm (s t') = sm (s (tx, ty, j))"
    proof (intro ballI impI)
      fix t' assume t': "t' \<in> set (NHD_threads A)"
        and e: "(case t' of (tx, ty, tz) \<Rightarrow> (tz * ?by + ty) * 2) = (j * ?by + ty) * 2"
      obtain tx' ty' tz' where te: "t' = (tx', ty', tz')" by (cases t')
      have b: "tx' < arg_bdx A" "ty' < ?by" "tz' < arg_bdz A"
        using t' te by (simp_all add: NHD_threads_mem)
      have "tz' * ?by + ty' = j * ?by + ty"
        using e double_inj(2) [of "tz' * ?by + ty'" "j * ?by + ty"] by (simp add: te)
      then have "tz' = j \<and> ty' = ty" by (rule pack_inj [OF b(2) ty])
      then show "sm (s t') = sm (s (tx, ty, j))"
        using usm [OF b(1) ty j] usm [OF tx ty j] by (simp add: te)
    qed
    have "snd ?bufs ((j * ?by + ty) * 2)
        = block_store_cell (NHD_threads A) (\<lambda>(tx, ty, tz). (tz * ?by + ty) * 2)
            (\<lambda>t. sm (s t)) (snd bufs) ((j * ?by + ty) * 2)"
      unfolding NHD_sync_store_def snd_conv
      by (rule block_store_cell_frame [OF fr])
    also have "\<dots> = sm (s (tx, ty, j))"
      by (rule block_store_cell_hit [OF mem hit uniq])
    finally show ?thesis .
  qed
  have d: "fin_of (snd ?bufs ((j * ?by + ty) * 2 + 1)) = sd (s (tx, ty, j))"
    if j: "j < arg_bdz A" for j
  proof -
    have mem: "(tx, ty, j) \<in> set (NHD_threads A)" using tx ty j by (simp add: NHD_threads_mem)
    have hit: "(case (tx, ty, j) of (tx, ty, tz) \<Rightarrow> (tz * ?by + ty) * 2 + 1)
        = (j * ?by + ty) * 2 + 1" by simp
    have uniq: "\<forall>t'\<in>set (NHD_threads A).
        (case t' of (tx, ty, tz) \<Rightarrow> (tz * ?by + ty) * 2 + 1) = (j * ?by + ty) * 2 + 1
        \<longrightarrow> Fin (sd (s t')) = Fin (sd (s (tx, ty, j)))"
    proof (intro ballI impI)
      fix t' assume t': "t' \<in> set (NHD_threads A)"
        and e: "(case t' of (tx, ty, tz) \<Rightarrow> (tz * ?by + ty) * 2 + 1) = (j * ?by + ty) * 2 + 1"
      obtain tx' ty' tz' where te: "t' = (tx', ty', tz')" by (cases t')
      have b: "tx' < arg_bdx A" "ty' < ?by" "tz' < arg_bdz A"
        using t' te by (simp_all add: NHD_threads_mem)
      have "tz' * ?by + ty' = j * ?by + ty"
        using e double_inj(3) [of "tz' * ?by + ty'" "j * ?by + ty"] by (simp add: te)
      then have "tz' = j \<and> ty' = ty" by (rule pack_inj [OF b(2) ty])
      then show "Fin (sd (s t')) = Fin (sd (s (tx, ty, j)))"
        using usd [OF b(1) ty j] usd [OF tx ty j] by (simp add: te)
    qed
    have "snd ?bufs ((j * ?by + ty) * 2 + 1) = Fin (sd (s (tx, ty, j)))"
      unfolding NHD_sync_store_def snd_conv
      by (rule block_store_cell_hit [OF mem hit uniq])
    then show ?thesis by simp
  qed
  have step: "merge_mdo st (snd ?bufs ((j * ?by + ty) * 2))
                    (fin_of (snd ?bufs ((j * ?by + ty) * 2 + 1)))
                    (fvec_load ?v (fst ?bufs) ((j * ?by + ty) * ?D + tx * ?v))
      = merge st (s (tx, ty, j))" if "j < arg_bdz A" for st j
    unfolding merge_def o [OF that] m [OF that] d [OF that] by simp
  have "NHD_sync_merge A ?bufs tx ty
      = foldl (\<lambda>st j. merge st (s (tx, ty, j))) (init ?v) [0 ..< arg_bdz A]"
    unfolding NHD_sync_merge_def
  proof (rule foldl_cong [OF refl refl])
    fix st j assume "j \<in> set [0 ..< arg_bdz A]"
    then have "j < arg_bdz A" by simp
    then show "merge_mdo st (snd ?bufs ((j * ?by + ty) * 2))
                    (fin_of (snd ?bufs ((j * ?by + ty) * 2 + 1)))
                    (fvec_load ?v (fst ?bufs) ((j * ?by + ty) * ?D + tx * ?v))
      = merge st (s (tx, ty, j))" by (rule step)
  qed
  also have "\<dots> = merge_all ?v (map (\<lambda>j. s (tx, ty, j)) [0 ..< arg_bdz A])"
    by (simp add: merge_all_def foldl_map)
  finally show ?thesis by (simp add: NHD_sync_state_def Let_def)
qed

lemma NHD_fold_seq:
  "NHD_fold A head_idx tx ps
     = seq_fold (arg_vec_size A) (\<lambda>p. NHD_score A head_idx p ! tx)
         (\<lambda>p. NHD_value A head_idx p tx) ps"
  unfolding NHD_fold_def seq_fold_def NHD_fold_in_def [abs_def] by (rule refl)

lemma NHD_score_lane:
  "tx < arg_bdx A \<Longrightarrow> NHD_score A head_idx p ! tx = NHD_score A head_idx p ! 0"
  by (simp add: NHD_score_def NHD_compute_qk_def Let_def shfl_def)

lemma NHD_fold_uniform:
  assumes "tx < arg_bdx A"
  shows "length (so (NHD_fold A head_idx tx ps)) = arg_vec_size A"
    and "sm (NHD_fold A head_idx tx ps) = sm (NHD_fold A head_idx 0 ps)"
    and "sd (NHD_fold A head_idx tx ps) = sd (NHD_fold A head_idx 0 ps)"
proof -
  show "length (so (NHD_fold A head_idx tx ps)) = arg_vec_size A"
    unfolding NHD_fold_seq by (rule length_so_seq_fold) (simp add: NHD_value_def vec_load_def)
  have x: "\<forall>p\<in>set ps. NHD_score A head_idx p ! tx = NHD_score A head_idx p ! 0"
    using NHD_score_lane [OF assms] by simp
  show "sm (NHD_fold A head_idx tx ps) = sm (NHD_fold A head_idx 0 ps)"
    unfolding NHD_fold_seq by (rule md_seq_fold(1) [OF x])
  show "sd (NHD_fold A head_idx tx ps) = sd (NHD_fold A head_idx 0 ps)"
    unfolding NHD_fold_seq by (rule md_seq_fold(2) [OF x])
qed

lemma NHD_block_partial_fold:
  assumes wf: "NHD_wf A" and tx: "tx < arg_bdx A" and ty: "ty < arg_bdy A"
  shows "fst (NHD_block_partial A blockIdx_y kv_chunk_idx) (tx, ty, tz)
       = NHD_chunk_fold A (blockIdx_y * arg_bdy A + ty) kv_chunk_idx tx"
proof -
  let ?s = "r_s_partial (NHD_chunk_state A blockIdx_y kv_chunk_idx)"
  let ?h = "blockIdx_y * arg_bdy A + ty"
  let ?st = "chunk_start_of A kv_chunk_idx" and ?cs = "chunk_size_of A kv_chunk_idx"
  let ?LP = "lane_positions ?st ?cs (arg_bdz A)"
  have bdz: "0 < arg_bdz A" using wf by (simp add: NHD_wf_def)
  have bdx: "0 < arg_bdx A" using tx by simp
  have s: "?s (tx', ty', j) = NHD_fold A (blockIdx_y * arg_bdy A + ty') tx' (?LP j)"
    if "tx' < arg_bdx A" "ty' < arg_bdy A" "j < arg_bdz A" for tx' ty' j
    by (rule NHD_chunk_state_fold [OF wf that])
  have u: "NHD_lane_uniform A ?s"
    unfolding NHD_lane_uniform_def
  proof (intro allI impI)
    fix tx' ty' j assume a: "tx' < arg_bdx A" "ty' < arg_bdy A" "j < arg_bdz A"
    show "length (so (?s (tx', ty', j))) = arg_vec_size A
        \<and> sm (?s (tx', ty', j)) = sm (?s (0, ty', j))
        \<and> sd (?s (tx', ty', j)) = sd (?s (0, ty', j))"
      unfolding s [OF a] s [OF bdx a(2,3)]
      using NHD_fold_uniform [OF a(1), of "blockIdx_y * arg_bdy A + ty'" "?LP j"] by simp
  qed
  have "fst (NHD_block_partial A blockIdx_y kv_chunk_idx) (tx, ty, tz)
      = merge_all (arg_vec_size A) (map (\<lambda>j. ?s (tx, ty, j)) [0 ..< arg_bdz A])"
    unfolding NHD_block_partial_def by (rule NHD_sync_state_merge_all [OF wf u tx ty])
  also have "map (\<lambda>j. ?s (tx, ty, j)) [0 ..< arg_bdz A]
      = map (NHD_fold A ?h tx) (map ?LP [0 ..< arg_bdz A])"
    using s [OF tx ty] by simp
  also have "merge_all (arg_vec_size A) \<dots>
      = NHD_fold A ?h tx (concat (map ?LP [0 ..< arg_bdz A]))"
    using merge_all_seq_folds [of "arg_vec_size A" "\<lambda>p. NHD_score A ?h p ! tx"
        "\<lambda>p. NHD_value A ?h p tx" "map ?LP [0 ..< arg_bdz A]"]
    unfolding NHD_fold_seq [symmetric] by (simp only: map_map comp_def)
  also have "\<dots> = NHD_fold A ?h tx [?st ..< ?st + ?cs]"
    unfolding NHD_fold_seq by (rule seq_fold_mset) (rule mset_lanes [OF bdz])
  finally show ?thesis by (simp add: NHD_chunk_fold_def chunk_end_eq)
qed

lemma NHD_grid_mem:
  "((bx, by), (tx, ty, tz)) \<in> set (NHD_grid A)
     \<longleftrightarrow> bx < arg_gridDim_x A \<and> by < arg_gridDim_y A
         \<and> tx < arg_bdx A \<and> ty < arg_bdy A \<and> tz < arg_bdz A"
  by (auto simp: NHD_grid_def NHD_threads_def)

lemma NHD_head_less:
  assumes "by < arg_gridDim_y A" and "ty < arg_bdy A"
  shows "by * arg_bdy A + ty < NHD_num_heads A"
  unfolding NHD_num_heads_def by (rule pair_pack_less [OF assms])

lemma NHD_tmp_o_inj:
  assumes D: "arg_bdx A * arg_vec_size A = arg_head_dim A"
    and "h < NHD_num_heads A" "h' < NHD_num_heads A"
    and "tx < arg_bdx A" "tx' < arg_bdx A" "i < arg_vec_size A" "i' < arg_vec_size A"
    and "NHD_tmp_o A h c tx + i = NHD_tmp_o A h' c' tx' + i'"
  shows "h = h' \<and> c = c' \<and> tx = tx' \<and> i = i'"
proof -
  have "c * NHD_num_heads A + h = c' * NHD_num_heads A + h' \<and> tx = tx' \<and> i = i'"
    using lane_pack_inj [OF D assms(4-7), of "c * NHD_num_heads A + h"
        "c' * NHD_num_heads A + h'"] assms(8)
    by (simp add: NHD_tmp_o_def)
  then show ?thesis using pair_pack_inj [OF assms(2,3)] by blast
qed

lemma NHD_tmp_o_less:
  assumes D: "arg_bdx A * arg_vec_size A = arg_head_dim A"
    and "h < NHD_num_heads A" "c < arg_gridDim_x A" "tx < arg_bdx A" "i < arg_vec_size A"
  shows "NHD_tmp_o A h c tx + i < arg_gridDim_x A * NHD_num_heads A * arg_head_dim A"
proof -
  have "tx * arg_vec_size A + i < arg_head_dim A"
    using lane_in_row [OF assms(4), of "arg_vec_size A"] assms(5) D by simp
  then have "(c * NHD_num_heads A + h) * arg_head_dim A + (tx * arg_vec_size A + i)
      < (arg_gridDim_x A * NHD_num_heads A) * arg_head_dim A"
    using row_in_tile [OF pair_pack_less [OF assms(3,2)],
        of "Suc (tx * arg_vec_size A + i)" "arg_head_dim A"] by simp
  then show ?thesis by (simp add: NHD_tmp_o_def add.assoc)
qed

lemma NHD_tmp_md_inj:
  assumes "h < NHD_num_heads A" "h' < NHD_num_heads A" "e < 2" "e' < 2"
    and "NHD_tmp_md A h c + e = NHD_tmp_md A h' c' + e'"
  shows "h = h' \<and> c = c' \<and> e = e'"
proof -
  have "(c * NHD_num_heads A + h) * 2 + e = (c' * NHD_num_heads A + h') * 2 + e'"
    using assms(5) by (simp add: NHD_tmp_md_def)
  then have "c * NHD_num_heads A + h = c' * NHD_num_heads A + h' \<and> e = e'"
    by (rule pack_inj [OF assms(3,4)])
  then show ?thesis using pair_pack_inj [OF assms(1,2)] by blast
qed

lemma NHD_tmp_partial_read:
  assumes wf: "NHD_wf A" and b: "b < arg_gridDim_y A" and ty: "ty < arg_bdy A"
    and c: "c < arg_gridDim_x A" and tx: "tx < arg_bdx A"
  defines "h \<equiv> b * arg_bdy A + ty"
  shows "fvec_load (arg_vec_size A) (NHD_tmp_partial A tmp) (NHD_tmp_o A h c tx)
           = so (NHD_chunk_fold A h c tx)"
    and "NHD_tmp_partial A tmp (NHD_tmp_md A h c) = sm (NHD_chunk_fold A h c tx)"
    and "fin_of (NHD_tmp_partial A tmp (NHD_tmp_md A h c + 1)) = sd (NHD_chunk_fold A h c tx)"
proof -
  let ?v = "arg_vec_size A" and ?by = "arg_bdy A"
  let ?S = "\<lambda>((bx, by), t). fst (NHD_block_partial A by bx) t"
  let ?do = "\<lambda>((bx, by), (tx, ty, tz :: nat)). NHD_tmp_o A (by * ?by + ty) bx tx"
  let ?dm = "\<lambda>((bx, by), (tx :: nat, ty, tz :: nat)). NHD_tmp_md A (by * ?by + ty) bx"
  let ?dd = "\<lambda>((bx, by), (tx :: nat, ty, tz :: nat)). NHD_tmp_md A (by * ?by + ty) bx + 1"
  let ?tmp1 = "block_store (NHD_grid A) ?do (\<lambda>g. so (?S g)) tmp"
  let ?tmp2 = "block_store_cell (NHD_grid A) ?dm (\<lambda>g. sm (?S g)) ?tmp1"
  let ?tmp3 = "block_store_cell (NHD_grid A) ?dd (\<lambda>g. Fin (sd (?S g))) ?tmp2"
  let ?g0 = "((c, b), (tx, ty, 0 :: nat))"
  have D: "arg_bdx A * ?v = arg_head_dim A" and bdz: "0 < arg_bdz A"
    using wf by (simp_all add: NHD_wf_def)
  have bdx: "0 < arg_bdx A" using tx by simp
  have hH: "h < NHD_num_heads A" unfolding h_def by (rule NHD_head_less [OF b ty])
  have T: "NHD_tmp_partial A tmp = ?tmp3"
    unfolding NHD_tmp_partial_def Let_def by (rule refl)
  have S: "?S ((bx, by), (tx', ty', tz')) = NHD_chunk_fold A (by * ?by + ty') bx tx'"
    if "tx' < arg_bdx A" "ty' < ?by" for bx "by" tx' ty' tz'
    using NHD_block_partial_fold [OF wf that] by simp
  have S0: "?S ?g0 = NHD_chunk_fold A h c tx"
    unfolding h_def by (rule S [OF tx ty])
  have len: "length (so (NHD_chunk_fold A h' c' tx')) = ?v"
    and um: "sm (NHD_chunk_fold A h' c' tx') = sm (NHD_chunk_fold A h' c' 0)"
    and ud: "sd (NHD_chunk_fold A h' c' tx') = sd (NHD_chunk_fold A h' c' 0)"
    if "tx' < arg_bdx A" for h' c' tx'
    unfolding NHD_chunk_fold_def using NHD_fold_uniform [OF that] by simp_all
  have mem: "?g0 \<in> set (NHD_grid A)"
    using b c tx ty bdz by (simp add: NHD_grid_mem)
  have md_hi: "arg_gridDim_x A * NHD_num_heads A * arg_head_dim A \<le> NHD_tmp_md A h' c' + e"
    for h' c' e by (simp add: NHD_tmp_md_def)
  have do0: "?do ?g0 = NHD_tmp_o A h c tx" and dm0: "?dm ?g0 = NHD_tmp_md A h c"
    and dd0: "?dd ?g0 = NHD_tmp_md A h c + 1"
    by (simp_all add: h_def)
  have o_cell: "?tmp3 (NHD_tmp_o A h c tx + i) = Fin (so (NHD_chunk_fold A h c tx) ! i)"
    if i: "i < ?v" for i
  proof -
    let ?a = "NHD_tmp_o A h c tx + i"
    have lt: "?a < arg_gridDim_x A * NHD_num_heads A * arg_head_dim A"
      by (rule NHD_tmp_o_less [OF D hH c tx i])
    have f3: "?tmp3 ?a = ?tmp2 ?a"
    proof (rule block_store_cell_frame, intro ballI)
      fix g :: "(nat \<times> nat) \<times> (nat \<times> nat \<times> nat)"
      obtain bx "by" tx' ty' tz' where g: "g = ((bx, by), (tx', ty', tz'))"
        by (metis surj_pair)
      show "?dd g \<noteq> ?a" using md_hi [of "by * ?by + ty'" bx 1] lt by (simp add: g)
    qed
    have f2: "?tmp2 ?a = ?tmp1 ?a"
    proof (rule block_store_cell_frame, intro ballI)
      fix g :: "(nat \<times> nat) \<times> (nat \<times> nat \<times> nat)"
      obtain bx "by" tx' ty' tz' where g: "g = ((bx, by), (tx', ty', tz'))"
        by (metis surj_pair)
      show "?dm g \<noteq> ?a" using md_hi [of "by * ?by + ty'" bx 0] lt by (simp add: g)
    qed
    have uniq: "\<forall>g\<in>set (NHD_grid A). ?do g \<le> ?a \<longrightarrow> ?a < ?do g + length (so (?S g))
        \<longrightarrow> so (?S g) ! (?a - ?do g) = so (?S ?g0) ! (?a - ?do ?g0)"
    proof (intro ballI impI)
      fix g assume gm: "g \<in> set (NHD_grid A)" and lo: "?do g \<le> ?a"
        and hi: "?a < ?do g + length (so (?S g))"
      obtain bx "by" tx' ty' tz' where g: "g = ((bx, by), (tx', ty', tz'))"
        by (metis surj_pair)
      have bb: "bx < arg_gridDim_x A" "by < arg_gridDim_y A" "tx' < arg_bdx A" "ty' < ?by"
        using gm g by (simp_all add: NHD_grid_mem)
      have hH': "by * ?by + ty' < NHD_num_heads A" by (rule NHD_head_less [OF bb(2,4)])
      define r where "r = ?a - ?do g"
      have r: "r < ?v" "NHD_tmp_o A h c tx + i = NHD_tmp_o A (by * ?by + ty') bx tx' + r"
        using lo hi len [OF bb(3)] S [OF bb(3,4)] by (simp_all add: r_def g)
      have "h = by * ?by + ty' \<and> c = bx \<and> tx = tx' \<and> i = r"
        by (rule NHD_tmp_o_inj [OF D hH hH' tx bb(3) i r(1) r(2)])
      then show "so (?S g) ! (?a - ?do g) = so (?S ?g0) ! (?a - ?do ?g0)"
        unfolding S0 do0 using S [OF bb(3,4), of bx "by" tz'] by (simp add: g)
    qed
    have lo: "?do ?g0 \<le> ?a"
      and hi: "?a < ?do ?g0 + length (so (?S ?g0))"
      unfolding S0 do0 using i len [OF tx] by simp_all
    have "?tmp1 ?a = Fin (so (?S ?g0) ! (?a - ?do ?g0))"
      by (rule block_store_hit [where dst = ?do and vecs = "\<lambda>g. so (?S g)"
            and t = ?g0, OF mem lo hi uniq])
    then show ?thesis unfolding S0 do0 using f3 f2 by simp
  qed
  show "fvec_load ?v (NHD_tmp_partial A tmp) (NHD_tmp_o A h c tx) = so (NHD_chunk_fold A h c tx)"
    unfolding T using o_cell by (intro fvec_load_stored len [OF tx]) simp
  have m_cell: "?tmp2 (NHD_tmp_md A h c) = sm (NHD_chunk_fold A h c tx)"
  proof -
    have uniq: "\<forall>g\<in>set (NHD_grid A). ?dm g = NHD_tmp_md A h c
        \<longrightarrow> sm (?S g) = sm (?S ?g0)"
    proof (intro ballI impI)
      fix g assume gm: "g \<in> set (NHD_grid A)" and e: "?dm g = NHD_tmp_md A h c"
      obtain bx "by" tx' ty' tz' where g: "g = ((bx, by), (tx', ty', tz'))"
        by (metis surj_pair)
      have bb: "bx < arg_gridDim_x A" "by < arg_gridDim_y A" "tx' < arg_bdx A" "ty' < ?by"
        using gm g by (simp_all add: NHD_grid_mem)
      have hH': "by * ?by + ty' < NHD_num_heads A" by (rule NHD_head_less [OF bb(2,4)])
      have "NHD_tmp_md A (by * ?by + ty') bx + 0 = NHD_tmp_md A h c + 0"
        using e by (simp add: g)
      then have "by * ?by + ty' = h \<and> bx = c \<and> (0::nat) = 0"
        by (intro NHD_tmp_md_inj [OF hH' hH]) simp_all
      then show "sm (?S g) = sm (?S ?g0)"
        unfolding S0 using S [OF bb(3,4), of bx "by" tz'] um [OF tx] um [OF bb(3)]
        by (simp add: g)
    qed
    have "?tmp2 (NHD_tmp_md A h c) = sm (?S ?g0)"
      by (rule block_store_cell_hit [where dst = ?dm and vals = "\<lambda>g. sm (?S g)"
            and t = ?g0, OF mem dm0 uniq])
    then show ?thesis unfolding S0 .
  qed
  show "NHD_tmp_partial A tmp (NHD_tmp_md A h c) = sm (NHD_chunk_fold A h c tx)"
    unfolding T
  proof -
    have "?tmp3 (NHD_tmp_md A h c) = ?tmp2 (NHD_tmp_md A h c)"
    proof (rule block_store_cell_frame, intro ballI)
      fix g assume gm: "g \<in> set (NHD_grid A)"
      obtain bx "by" tx' ty' tz' where g: "g = ((bx, by), (tx', ty', tz'))"
        by (metis surj_pair)
      have bb: "by < arg_gridDim_y A" "ty' < ?by"
        using gm g by (simp_all add: NHD_grid_mem)
      have hH': "by * ?by + ty' < NHD_num_heads A" by (rule NHD_head_less [OF bb])
      have "NHD_tmp_md A (by * ?by + ty') bx + 1 \<noteq> NHD_tmp_md A h c + 0"
        using NHD_tmp_md_inj [OF hH' hH, of 1 0 bx c] by auto
      then show "?dd g \<noteq> NHD_tmp_md A h c" by (simp add: g)
    qed
    then show "?tmp3 (NHD_tmp_md A h c) = sm (NHD_chunk_fold A h c tx)"
      using m_cell by simp
  qed
  show "fin_of (NHD_tmp_partial A tmp (NHD_tmp_md A h c + 1)) = sd (NHD_chunk_fold A h c tx)"
    unfolding T
  proof -
    have uniq: "\<forall>g\<in>set (NHD_grid A). ?dd g = NHD_tmp_md A h c + 1
        \<longrightarrow> Fin (sd (?S g)) = Fin (sd (?S ?g0))"
    proof (intro ballI impI)
      fix g assume gm: "g \<in> set (NHD_grid A)" and e: "?dd g = NHD_tmp_md A h c + 1"
      obtain bx "by" tx' ty' tz' where g: "g = ((bx, by), (tx', ty', tz'))"
        by (metis surj_pair)
      have bb: "bx < arg_gridDim_x A" "by < arg_gridDim_y A" "tx' < arg_bdx A" "ty' < ?by"
        using gm g by (simp_all add: NHD_grid_mem)
      have hH': "by * ?by + ty' < NHD_num_heads A" by (rule NHD_head_less [OF bb(2,4)])
      have "NHD_tmp_md A (by * ?by + ty') bx + 1 = NHD_tmp_md A h c + 1"
        using e by (simp add: g)
      then have "by * ?by + ty' = h \<and> bx = c \<and> (1::nat) = 1"
        by (intro NHD_tmp_md_inj [OF hH' hH]) simp_all
      then show "Fin (sd (?S g)) = Fin (sd (?S ?g0))"
        unfolding S0 using S [OF bb(3,4), of bx "by" tz'] ud [OF tx] ud [OF bb(3)]
        by (simp add: g)
    qed
    have "?tmp3 (NHD_tmp_md A h c + 1) = Fin (sd (?S ?g0))"
      by (rule block_store_cell_hit [where dst = ?dd and vals = "\<lambda>g. Fin (sd (?S g))"
            and t = ?g0, OF mem dd0 uniq])
    then show "fin_of (?tmp3 (NHD_tmp_md A h c + 1)) = sd (NHD_chunk_fold A h c tx)"
      unfolding S0 by simp
  qed
qed



lemma NHD_global_merge_all:
  assumes wf: "NHD_wf A" and b: "b < arg_gridDim_y A" and tx: "tx < arg_bdx A"
    and ty: "ty < arg_bdy A"
  shows "NHD_global_merge A (NHD_tmp_partial A tmp) b (tx, ty, tz)
       = merge_all (arg_vec_size A)
           (map (\<lambda>c. NHD_chunk_fold A (b * arg_bdy A + ty) c tx)
              (lane_positions 0 (arg_gridDim_x A) (arg_bdz A) tz))"
proof -
  let ?T = "NHD_tmp_partial A tmp" and ?v = "arg_vec_size A" and ?C = "arg_gridDim_x A"
  let ?h = "b * arg_bdy A + ty"
  have ld: "\<lparr>so = fvec_load ?v ?T (NHD_tmp_o A ?h c tx), sm = ?T (NHD_tmp_md A ?h c),
             sd = fin_of (?T (NHD_tmp_md A ?h c + 1))\<rparr> = NHD_chunk_fold A ?h c tx"
    if "c < ?C" for c
    using NHD_tmp_partial_read [OF wf b ty that tx, of tmp] by simp
  have "NHD_global_merge A ?T b (tx, ty, tz)
      = foldl (\<lambda>s n. if n * arg_bdz A + tz < ?C
                       then merge s (NHD_chunk_fold A ?h (n * arg_bdz A + tz) tx) else s)
          (init ?v) [0 ..< (?C + arg_bdz A - 1) div arg_bdz A]"
    unfolding NHD_global_merge_def Let_def prod.case
  proof (rule foldl_cong [OF refl refl])
    fix s n
    show "(if n * arg_bdz A + tz < ?C
           then merge s \<lparr>so = fvec_load ?v ?T (NHD_tmp_o A ?h (n * arg_bdz A + tz) tx),
                  sm = ?T (NHD_tmp_md A ?h (n * arg_bdz A + tz)),
                  sd = fin_of (?T (NHD_tmp_md A ?h (n * arg_bdz A + tz) + 1))\<rparr>
           else s)
        = (if n * arg_bdz A + tz < ?C
           then merge s (NHD_chunk_fold A ?h (n * arg_bdz A + tz) tx) else s)"
    proof (cases "n * arg_bdz A + tz < ?C")
      case True
      show ?thesis by (simp only: ld [OF True])
    next
      case False
      then show ?thesis by simp
    qed
  qed
  also have "\<dots> = foldl (\<lambda>s c. merge s (NHD_chunk_fold A ?h c tx)) (init ?v)
      (filter (\<lambda>c. c < ?C) (map (\<lambda>n. n * arg_bdz A + tz)
         [0 ..< (?C + arg_bdz A - 1) div arg_bdz A]))"
    by (rule foldl_if_filter)
  also have "\<dots> = merge_all ?v (map (\<lambda>c. NHD_chunk_fold A ?h c tx)
      (lane_positions 0 ?C (arg_bdz A) tz))"
    by (simp add: merge_all_def foldl_map lane_positions_def)
  finally show ?thesis .
qed



lemma example_wf: "HND_wf example_args" "NHD_wf example_args" "chunked example_args"
  by (simp_all add: HND_wf_def NHD_wf_def chunked_def example_args_def)







lemma md_cell_less:
  fixes h c H C e :: nat
  assumes "h * C + c < H * C" and "e < 2"
  shows "(h * C + c) * 2 + e < 2 * H * C"
proof -
  have "X * 2 + e < 2 * Y" if "X < Y" for X Y :: nat using that assms(2) by linarith
  from this [OF assms(1)] show ?thesis by (simp only: mult.assoc)
qed

lemma sub1_u64_exact: "0 < n \<Longrightarrow> n < 2 ^ 64 \<Longrightarrow> sub1_u64 n = n - 1"
  using sub1_u64_u64_exact [of n] by (simp add: u64_def)

lemma q_vec_of_rotated:
  assumes "0 < arg_seq_len A" and "arg_seq_len A < 2 ^ 64"
  shows "q_vec_of A head_idx tx
       = rotated A (arg_q A) (head_idx * arg_head_dim A) (arg_seq_len A - 1) tx"
  by (simp add: q_vec_of_def rotated_def sub1_u64_exact [OF assms])

lemma HND_score_rotated:
  assumes "0 < arg_seq_len A" and "arg_seq_len A < 2 ^ 64"
  shows "HND_score A head_idx p
       = tile_scores A
           (\<lambda>t. rotated A (arg_q A) (head_idx * arg_head_dim A) (arg_seq_len A - 1) t)
           (\<lambda>t. rotated A (arg_k A) ((head_idx * arg_seq_len A + p) * arg_head_dim A) p t)"
  unfolding HND_score_def HND_compute_qk_def Let_def tile_scores_def HND_k_vec_def
    q_vec_of_rotated [OF assms]
  by (simp add: rotated_def cong: if_cong)

lemma NHD_score_rotated:
  assumes "0 < arg_seq_len A" and "arg_seq_len A < 2 ^ 64"
  shows "NHD_score A head_idx p
       = tile_scores A
           (\<lambda>t. rotated A (arg_q A) (head_idx * arg_head_dim A) (arg_seq_len A - 1) t)
           (\<lambda>t. rotated A (arg_k A) ((p * NHD_num_heads A + head_idx) * arg_head_dim A) p t)"
  unfolding NHD_score_def NHD_compute_qk_def Let_def tile_scores_def NHD_k_vec_def
    q_vec_of_rotated [OF assms]
  by (simp add: rotated_def cong: if_cong)

section \<open>The claims about the kernels\<close>






text \<open>
  Claim C6. In the scratch buffer of \<open>heads * chunks * head_dim + 2 * heads * chunks\<close>
  floats the cells of the partial output and the cells of \<open>m\<close> and \<open>d\<close> of a pair
  (head, chunk) are inside the buffer, the former below and the latter above
  \<open>heads * chunks * head_dim\<close>, and those of two distinct pairs are distinct, in both
  layouts; and what a group of chunk zero reads from the buffer in the reduction across
  the groups was written by a group before the barrier: the state it merges does not
  depend on what the buffer held before the launch.
\<close>

theorem scratch_regions_disjoint_and_written:
  assumes D: "arg_bdx A * arg_vec_size A = arg_head_dim A"
    and c: "c < arg_gridDim_x A" "c' < arg_gridDim_x A"
    and tx: "tx < arg_bdx A" "tx' < arg_bdx A"
    and i: "i < arg_vec_size A" "i' < arg_vec_size A"
    and e: "e < 2" "e' < 2"
  shows "(h < arg_gridDim_y A \<and> h' < arg_gridDim_y A \<longrightarrow>
            HND_tmp_o A h c tx + i < arg_gridDim_y A * arg_gridDim_x A * arg_head_dim A
          \<and> arg_gridDim_y A * arg_gridDim_x A * arg_head_dim A \<le> HND_tmp_md A h c + e
          \<and> HND_tmp_md A h c + e
              < tmp_size (arg_gridDim_y A) (arg_gridDim_x A) (arg_head_dim A)
          \<and> ((h, c) \<noteq> (h', c') \<longrightarrow>
                HND_tmp_o A h c tx + i \<noteq> HND_tmp_o A h' c' tx' + i'
              \<and> HND_tmp_md A h c + e \<noteq> HND_tmp_md A h' c' + e'))
       \<and> (h < NHD_num_heads A \<and> h' < NHD_num_heads A \<longrightarrow>
            NHD_tmp_o A h c tx + i < NHD_num_heads A * arg_gridDim_x A * arg_head_dim A
          \<and> NHD_num_heads A * arg_gridDim_x A * arg_head_dim A \<le> NHD_tmp_md A h c + e
          \<and> NHD_tmp_md A h c + e
              < tmp_size (NHD_num_heads A) (arg_gridDim_x A) (arg_head_dim A)
          \<and> ((h, c) \<noteq> (h', c') \<longrightarrow>
                NHD_tmp_o A h c tx + i \<noteq> NHD_tmp_o A h' c' tx' + i'
              \<and> NHD_tmp_md A h c + e \<noteq> NHD_tmp_md A h' c' + e'))
       \<and> (HND_wf A \<and> h < arg_gridDim_y A \<longrightarrow>
            HND_global_merge A (HND_tmp_partial A tmp) h (tx, ty)
              = HND_global_merge A (HND_tmp_partial A tmp') h (tx, ty))
       \<and> (NHD_wf A \<and> h < arg_gridDim_y A \<and> ty < arg_bdy A \<longrightarrow>
            NHD_global_merge A (NHD_tmp_partial A tmp) h (tx, ty, tz)
              = NHD_global_merge A (NHD_tmp_partial A tmp') h (tx, ty, tz))"
proof (intro conjI impI)
  assume "h < arg_gridDim_y A \<and> h' < arg_gridDim_y A"
  then have h: "h < arg_gridDim_y A" by simp
  show "HND_tmp_o A h c tx + i < arg_gridDim_y A * arg_gridDim_x A * arg_head_dim A"
    by (rule HND_tmp_o_less [OF D h c(1) tx(1) i(1)])
  show "arg_gridDim_y A * arg_gridDim_x A * arg_head_dim A \<le> HND_tmp_md A h c + e"
    by (simp add: HND_tmp_md_def)
  show "HND_tmp_md A h c + e < tmp_size (arg_gridDim_y A) (arg_gridDim_x A) (arg_head_dim A)"
    unfolding HND_tmp_md_def tmp_size_def
    using md_cell_less [OF pair_pack_less [OF h c(1)] e(1)] by simp
next
  assume ne: "(h, c) \<noteq> (h', c')"
  show "HND_tmp_o A h c tx + i \<noteq> HND_tmp_o A h' c' tx' + i'"
    using HND_tmp_o_inj [OF D c tx i, of h h'] ne by auto
  show "HND_tmp_md A h c + e \<noteq> HND_tmp_md A h' c' + e'"
    using HND_tmp_md_inj [OF c e, of h h'] ne by auto
next
  assume "h < NHD_num_heads A \<and> h' < NHD_num_heads A"
  then have h: "h < NHD_num_heads A" by simp
  have "NHD_tmp_o A h c tx + i < arg_gridDim_x A * NHD_num_heads A * arg_head_dim A"
    by (rule NHD_tmp_o_less [OF D h c(1) tx(1) i(1)])
  then show "NHD_tmp_o A h c tx + i < NHD_num_heads A * arg_gridDim_x A * arg_head_dim A"
    by (simp add: mult.commute)
  show "NHD_num_heads A * arg_gridDim_x A * arg_head_dim A \<le> NHD_tmp_md A h c + e"
    by (simp add: NHD_tmp_md_def mult.commute)
  have "(c * NHD_num_heads A + h) * 2 + e < 2 * arg_gridDim_x A * NHD_num_heads A"
    by (rule md_cell_less [OF pair_pack_less [OF c(1) h] e(1)])
  then show "NHD_tmp_md A h c + e
      < tmp_size (NHD_num_heads A) (arg_gridDim_x A) (arg_head_dim A)"
    unfolding NHD_tmp_md_def tmp_size_def by (simp add: mult.commute mult.left_commute)
next
  assume hh: "h < NHD_num_heads A \<and> h' < NHD_num_heads A" and ne: "(h, c) \<noteq> (h', c')"
  show "NHD_tmp_o A h c tx + i \<noteq> NHD_tmp_o A h' c' tx' + i'"
    using NHD_tmp_o_inj [OF D _ _ tx i, of h h' c c'] hh ne by auto
  show "NHD_tmp_md A h c + e \<noteq> NHD_tmp_md A h' c' + e'"
    using NHD_tmp_md_inj [OF _ _ e, of h A h' c c'] hh ne by auto
next
  assume "HND_wf A \<and> h < arg_gridDim_y A"
  then have wf: "HND_wf A" and h: "h < arg_gridDim_y A" by simp_all
  show "HND_global_merge A (HND_tmp_partial A tmp) h (tx, ty)
      = HND_global_merge A (HND_tmp_partial A tmp') h (tx, ty)"
    by (simp only: HND_global_merge_all [OF wf h tx(1)])
next
  assume "NHD_wf A \<and> h < arg_gridDim_y A \<and> ty < arg_bdy A"
  then have wf: "NHD_wf A" and h: "h < arg_gridDim_y A" and ty: "ty < arg_bdy A"
    by simp_all
  show "NHD_global_merge A (NHD_tmp_partial A tmp) h (tx, ty, tz)
      = NHD_global_merge A (NHD_tmp_partial A tmp') h (tx, ty, tz)"
    by (simp only: NHD_global_merge_all [OF wf h tx(1) ty])
qed

theorem scratch_regions_disjoint_and_written_witness:
  "arg_bdx example_args * arg_vec_size example_args = arg_head_dim example_args
   \<and> (0::nat) < arg_gridDim_x example_args \<and> (1::nat) < arg_gridDim_x example_args
   \<and> (0::nat) < arg_bdx example_args \<and> (1::nat) < arg_bdx example_args
   \<and> (0::nat) < arg_vec_size example_args \<and> (0::nat) < 2 \<and> (1::nat) < 2
   \<and> (0::nat) < arg_gridDim_y example_args
   \<and> (1::nat) < NHD_num_heads example_args \<and> (0::nat) < NHD_num_heads example_args
   \<and> HND_wf example_args \<and> NHD_wf example_args \<and> (1::nat) < arg_bdy example_args
   \<and> (0::nat, 0::nat) \<noteq> (0, 1) \<and> (1::nat, 0::nat) \<noteq> (0, 1)
   \<and> HND_tmp_o example_args 0 0 0 + 0 < 1 * 3 * 2
   \<and> 1 * 3 * 2 \<le> HND_tmp_md example_args 0 0 + 0
   \<and> HND_tmp_md example_args 0 0 + 0 < tmp_size 1 3 2
   \<and> HND_tmp_o example_args 0 0 0 + 0 \<noteq> HND_tmp_o example_args 0 1 1 + 0
   \<and> HND_tmp_md example_args 0 0 + 0 \<noteq> HND_tmp_md example_args 0 1 + 1
   \<and> NHD_tmp_o example_args 1 0 0 + 0 < 2 * 3 * 2
   \<and> 2 * 3 * 2 \<le> NHD_tmp_md example_args 1 0 + 0
   \<and> NHD_tmp_md example_args 1 0 + 0 < tmp_size 2 3 2
   \<and> NHD_tmp_o example_args 1 0 0 + 0 \<noteq> NHD_tmp_o example_args 0 1 1 + 0
   \<and> NHD_tmp_md example_args 1 0 + 0 \<noteq> NHD_tmp_md example_args 0 1 + 1
   \<and> HND_global_merge example_args (HND_tmp_partial example_args example_tmp) 0 (0, 1)
     = HND_global_merge example_args (HND_tmp_partial example_args example_tmp_other) 0 (0, 1)
   \<and> NHD_global_merge example_args (NHD_tmp_partial example_args example_tmp) 0 (0, 1, 0)
     = NHD_global_merge example_args (NHD_tmp_partial example_args example_tmp_other) 0
         (0, 1, 0)"
proof -
  have a: "arg_bdx example_args * arg_vec_size example_args = arg_head_dim example_args"
    "(0::nat) < arg_gridDim_x example_args" "(1::nat) < arg_gridDim_x example_args"
    "(0::nat) < arg_bdx example_args" "(1::nat) < arg_bdx example_args"
    "(0::nat) < arg_vec_size example_args" "(0::nat) < arg_vec_size example_args"
    "(0::nat) < 2" "(1::nat) < 2"
    by (simp_all add: example_args_def)
  have b: "(0::nat) < arg_gridDim_y example_args" "(1::nat) < NHD_num_heads example_args"
    "(0::nat) < NHD_num_heads example_args" "HND_wf example_args" "NHD_wf example_args"
    "(1::nat) < arg_bdy example_args"
    by (simp_all add: example_wf) (simp_all add: example_args_def NHD_num_heads_def)
  have v: "arg_gridDim_y example_args = 1" "arg_gridDim_x example_args = 3"
    "arg_head_dim example_args = 2" "NHD_num_heads example_args = 2"
    by (simp_all add: example_args_def NHD_num_heads_def)
  note h = scratch_regions_disjoint_and_written [OF a, where h = 0 and h' = 0
      and tmp = example_tmp and tmp' = example_tmp_other and ty = 1 and tz = 0]
  note n = scratch_regions_disjoint_and_written [OF a, where h = 1 and h' = 0
      and tmp = example_tmp and tmp' = example_tmp_other and ty = 1 and tz = 0]
  show ?thesis
    using a b h [THEN conjunct1] h [THEN conjunct2, THEN conjunct2]
      n [THEN conjunct2, THEN conjunct1]
    by (simp add: v)
qed

text \<open>
  Claim C9. In both kernels the query register of a thread is the vector of its head
  rotated at the position \<open>seq_len - 1\<close> when the rotary mode is on and the raw slice
  otherwise, the same for every key position; and the state of a thread after the fold
  of its chunk is the fold, over the positions \<open>p\<close> of its lane, of the score of this
  query with the key row of position \<open>p\<close>, rotated at \<open>p\<close> itself when the rotary mode
  is on and raw otherwise.
\<close>

theorem rotary_positions:
  assumes tx: "tx < arg_bdx A" and ty: "ty < arg_bdy A"
    and sl: "0 < arg_seq_len A" "arg_seq_len A < 2 ^ 64"
  shows "q_vec_of A head_idx tx
           = rotated A (arg_q A) (head_idx * arg_head_dim A) (arg_seq_len A - 1) tx
       \<and> (HND_wf A \<longrightarrow>
            r_s_partial (HND_chunk_state A head_idx kv_chunk_idx) (tx, ty)
              = foldl (\<lambda>s p. merge_xv s
                         (tile_scores A
                            (\<lambda>t. rotated A (arg_q A) (head_idx * arg_head_dim A)
                                   (arg_seq_len A - 1) t)
                            (\<lambda>t. rotated A (arg_k A)
                                   ((head_idx * arg_seq_len A + p) * arg_head_dim A) p t) ! tx)
                         (HND_value A head_idx p tx))
                  (init (arg_vec_size A))
                  (lane_positions (chunk_start_of A kv_chunk_idx) (chunk_size_of A kv_chunk_idx)
                     (arg_bdy A) ty))
       \<and> (NHD_wf A \<and> tz < arg_bdz A \<longrightarrow>
            r_s_partial (NHD_chunk_state A blockIdx_y kv_chunk_idx) (tx, ty, tz)
              = foldl (\<lambda>s p. merge_xv s
                         (tile_scores A
                            (\<lambda>t. rotated A (arg_q A)
                                   ((blockIdx_y * arg_bdy A + ty) * arg_head_dim A)
                                   (arg_seq_len A - 1) t)
                            (\<lambda>t. rotated A (arg_k A)
                                   ((p * NHD_num_heads A + (blockIdx_y * arg_bdy A + ty))
                                      * arg_head_dim A) p t) ! tx)
                         (NHD_value A (blockIdx_y * arg_bdy A + ty) p tx))
                  (init (arg_vec_size A))
                  (lane_positions (chunk_start_of A kv_chunk_idx) (chunk_size_of A kv_chunk_idx)
                     (arg_bdz A) tz))"
proof (intro conjI impI)
  show "q_vec_of A head_idx tx
      = rotated A (arg_q A) (head_idx * arg_head_dim A) (arg_seq_len A - 1) tx"
    by (rule q_vec_of_rotated [OF sl])
next
  assume wf: "HND_wf A"
  show "r_s_partial (HND_chunk_state A head_idx kv_chunk_idx) (tx, ty)
      = foldl (\<lambda>s p. merge_xv s
                 (tile_scores A
                    (\<lambda>t. rotated A (arg_q A) (head_idx * arg_head_dim A)
                           (arg_seq_len A - 1) t)
                    (\<lambda>t. rotated A (arg_k A)
                           ((head_idx * arg_seq_len A + p) * arg_head_dim A) p t) ! tx)
                 (HND_value A head_idx p tx))
          (init (arg_vec_size A))
          (lane_positions (chunk_start_of A kv_chunk_idx) (chunk_size_of A kv_chunk_idx)
             (arg_bdy A) ty)"
    unfolding HND_chunk_state_fold [OF wf tx ty] HND_fold_def HND_fold_in_def [abs_def]
      HND_score_rotated [OF sl] ..
next
  assume "NHD_wf A \<and> tz < arg_bdz A"
  then have wf: "NHD_wf A" and tz: "tz < arg_bdz A" by simp_all
  show "r_s_partial (NHD_chunk_state A blockIdx_y kv_chunk_idx) (tx, ty, tz)
      = foldl (\<lambda>s p. merge_xv s
                 (tile_scores A
                    (\<lambda>t. rotated A (arg_q A)
                           ((blockIdx_y * arg_bdy A + ty) * arg_head_dim A)
                           (arg_seq_len A - 1) t)
                    (\<lambda>t. rotated A (arg_k A)
                           ((p * NHD_num_heads A + (blockIdx_y * arg_bdy A + ty))
                              * arg_head_dim A) p t) ! tx)
                 (NHD_value A (blockIdx_y * arg_bdy A + ty) p tx))
          (init (arg_vec_size A))
          (lane_positions (chunk_start_of A kv_chunk_idx) (chunk_size_of A kv_chunk_idx)
             (arg_bdz A) tz)"
    unfolding NHD_chunk_state_fold [OF wf tx ty tz] NHD_fold_def NHD_fold_in_def [abs_def]
      NHD_score_rotated [OF sl] ..
qed

theorem rotary_positions_witness:
  "(1::nat) < arg_bdx example_rotary_args \<and> (1::nat) < arg_bdy example_rotary_args
   \<and> (0::nat) < arg_seq_len example_rotary_args \<and> arg_seq_len example_rotary_args < 2 ^ 64
   \<and> HND_wf example_rotary_args \<and> NHD_wf example_rotary_args
   \<and> (1::nat) < arg_bdz example_rotary_args
   \<and> q_vec_of example_rotary_args 0 1 = [6, - 1]
   \<and> rotated example_rotary_args real 12 3 1 = [17, 12]
   \<and> r_s_partial (HND_chunk_state example_rotary_args 0 1) (1, 1)
     = foldl (\<lambda>s p. merge_xv s
                (tile_scores example_rotary_args
                   (\<lambda>t. rotated example_rotary_args real 0 4 t)
                   (\<lambda>t. rotated example_rotary_args real ((0 * 5 + p) * 4) p t) ! 1)
                (HND_value example_rotary_args 0 p 1))
         (init 2)
         (lane_positions (chunk_start_of example_rotary_args 1)
            (chunk_size_of example_rotary_args 1) 2 1)
   \<and> r_s_partial (NHD_chunk_state example_rotary_args 0 1) (1, 1, 1)
     = foldl (\<lambda>s p. merge_xv s
                (tile_scores example_rotary_args
                   (\<lambda>t. rotated example_rotary_args real ((0 * 2 + 1) * 4) 4 t)
                   (\<lambda>t. rotated example_rotary_args real ((p * 2 + (0 * 2 + 1)) * 4) p t) ! 1)
                (NHD_value example_rotary_args (0 * 2 + 1) p 1))
         (init 2)
         (lane_positions (chunk_start_of example_rotary_args 1)
            (chunk_size_of example_rotary_args 1) 2 1)"
proof -
  have a: "(1::nat) < arg_bdx example_rotary_args" "(1::nat) < arg_bdy example_rotary_args"
    "(0::nat) < arg_seq_len example_rotary_args" "arg_seq_len example_rotary_args < 2 ^ 64"
    by (simp_all add: example_rotary_args_def)
  have b: "HND_wf example_rotary_args" "NHD_wf example_rotary_args"
    "(1::nat) < arg_bdz example_rotary_args"
    by (simp_all add: HND_wf_def NHD_wf_def example_rotary_args_def)
  have v: "arg_q example_rotary_args = real" "arg_k example_rotary_args = real"
    "arg_head_dim example_rotary_args = 4" "arg_seq_len example_rotary_args = 5"
    "arg_vec_size example_rotary_args = 2" "arg_bdy example_rotary_args = 2"
    "arg_bdz example_rotary_args = 2" "NHD_num_heads example_rotary_args = 2"
    by (simp_all add: example_rotary_args_def NHD_num_heads_def)
  have e: "rotary_emb_of example_rotary_args 1 = [1, 1]"
    by (simp add: rotary_emb_of_def example_rotary_args_def exact_ops_def upt_rec)
  have r: "rotated example_rotary_args real 0 4 1 = [6, - 1]"
    "rotated example_rotary_args real 12 3 1 = [17, 12]"
    unfolding rotated_def e
    by (simp_all add: example_rotary_args_def example_rotary_def vec_load_def upt_rec)
  note t = rotary_positions [OF a, where head_idx = 0 and kv_chunk_idx = 1 and tz = 1
      and blockIdx_y = 0]
  have q: "q_vec_of example_rotary_args 0 1 = [6, - 1]"
    using t [THEN conjunct1] r(1) by (simp add: v)
  show ?thesis
    using a b q r(2) t [THEN conjunct2] by (simp add: v)
qed

end
